theory Spec2Isabelle
  imports Complex_Main "HOL-Library.Sublist"
begin

section \<open>The document store\<close>

text \<open>
  The script \<^verbatim>\<open>database/scripts/init_collections_and_seed.mongosh.js\<close> runs against a
  MongoDB database through the shell object \<^verbatim>\<open>db\<close>. The store is modelled as far as the
  script uses it: named collections holding documents in insertion order and the indexes
  created on them, and a generator of fresh ObjectIds.

  Values are listed in the order in which the store compares values of different types.
  A number is read as the rational its literal denotes, a date as its time value in
  milliseconds since the epoch, an ObjectId as the serial number of its generation: the
  generator hands out each identifier once. The script only stores numbers, it never
  computes with them; on dates it subtracts whole milliseconds from the clock value.
\<close>

datatype val =
    VNull
  | VNum rat
  | VStr string
  | VDoc "(string \<times> val) list"
  | VId nat
  | VBool bool
  | VDate int

type_synonym fields = "(string \<times> val) list"

text \<open>
  A stored document always carries its identifier \<^verbatim>\<open>_id\<close>, an ObjectId as the store
  generates it on insertion, and its other fields in the order they were written. The
  indexes of a collection are those created with \<^verbatim>\<open>createIndex\<close>; the index on \<^verbatim>\<open>_id\<close>
  that every collection has from the start, and that no call of the script names, is left
  out.
\<close>

record doc =
  doc_id :: nat
  doc_fields :: fields

record index =
  ix_name :: string
  ix_keys :: "(string \<times> int) list"
  ix_unique :: bool

record collection =
  docs :: "doc list"
  indexes :: "index list"

record db =
  colls :: "(string \<times> collection) list"
  next_oid :: nat

text \<open>The lines the script prints, and the state of a run: the store and the console.\<close>

datatype line =
    Created_collection string
  | Collection_exists string
  | Indexes_ensured
  | Customer_id nat
  | Courier_id nat
  | Delivery_id nat
  | Tracking_events_ensured
  | Notification_ensured
  | Complete

record shell =
  store :: db
  console :: "line list"

text \<open>
  What makes the shell throw: a property read on \<^verbatim>\<open>null\<close>, a violated unique index, an
  index that exists with another definition, a collection that exists already.
\<close>

datatype err = TypeError | DuplicateKey | IndexConflict | NamespaceExists

type_synonym 'a M = "shell \<Rightarrow> (err + 'a) \<times> shell"

definition return :: "'a \<Rightarrow> 'a M" where
  "return x = (\<lambda>s. (Inr x, s))"

definition throw :: "err \<Rightarrow> 'a M" where
  "throw e = (\<lambda>s. (Inl e, s))"

text \<open>Sequencing: an exception ends the run and leaves the store as it is then.\<close>

definition bindM :: "'a M \<Rightarrow> ('a \<Rightarrow> 'b M) \<Rightarrow> 'b M" where
  "bindM m f = (\<lambda>s. case m s of (Inl e, s') \<Rightarrow> (Inl e, s') | (Inr x, s') \<Rightarrow> f x s')"

definition print :: "line \<Rightarrow> unit M" where
  "print l = (\<lambda>s. (Inr (), s\<lparr>console := console s @ [l]\<rparr>))"

subsection \<open>Collections\<close>

definition empty_collection :: collection where
  "empty_collection = \<lparr>docs = [], indexes = []\<rparr>"

text \<open>A collection that does not exist reads as empty.\<close>

definition get_coll :: "string \<Rightarrow> db \<Rightarrow> collection" where
  "get_coll name d = (case map_of (colls d) name of None \<Rightarrow> empty_collection | Some c \<Rightarrow> c)"

fun put_assoc :: "string \<Rightarrow> collection \<Rightarrow> (string \<times> collection) list \<Rightarrow> (string \<times> collection) list" where
  "put_assoc name c [] = [(name, c)]"
| "put_assoc name c ((n, c') # rest) =
     (if n = name then (n, c) # rest else (n, c') # put_assoc name c rest)"

text \<open>Writing to a collection that does not exist creates it.\<close>

definition put_coll :: "string \<Rightarrow> collection \<Rightarrow> db \<Rightarrow> db" where
  "put_coll name c d = d\<lparr>colls := put_assoc name c (colls d)\<rparr>"

definition getCollectionInfos :: "string \<Rightarrow> string list M" where
  "getCollectionInfos name = (\<lambda>s. (Inr (filter (\<lambda>n. n = name) (map fst (colls (store s)))), s))"

definition createCollection :: "string \<Rightarrow> unit M" where
  "createCollection name = (\<lambda>s.
     if map_of (colls (store s)) name \<noteq> None then (Inl NamespaceExists, s)
     else (Inr (), s\<lparr>store := put_coll name empty_collection (store s)\<rparr>))"

text \<open>A collection handle is the collection's name.\<close>

definition getCollection :: "string \<Rightarrow> string M" where
  "getCollection name = return name"

subsection \<open>Documents, filters and unique indexes\<close>

definition field :: "string \<Rightarrow> doc \<Rightarrow> val option" where
  "field k d = map_of (doc_fields d) k"

text \<open>
  The filters of the script are equalities on a string field: a document matches when it
  has each field of the filter with that value.
\<close>

definition matches :: "fields \<Rightarrow> doc \<Rightarrow> bool" where
  "matches q d = list_all (\<lambda>kv. field (fst kv) d = Some (snd kv)) q"

fun set_field :: "string \<Rightarrow> val \<Rightarrow> fields \<Rightarrow> fields" where
  "set_field k v [] = [(k, v)]"
| "set_field k v ((k', v') # rest) =
     (if k' = k then (k', v) # rest else (k', v') # set_field k v rest)"

text \<open>
  The document an upsert inserts: the equality fields of the filter, with the fields of
  \<^verbatim>\<open>$setOnInsert\<close> set on them.
\<close>

definition upsert_fields :: "fields \<Rightarrow> fields \<Rightarrow> fields" where
  "upsert_fields q u = foldl (\<lambda>fs kv. set_field (fst kv) (snd kv) fs) q u"

text \<open>The key of a document in an index: a field the document lacks counts as null.\<close>

definition index_key :: "index \<Rightarrow> doc \<Rightarrow> val list" where
  "index_key ix d = map (\<lambda>kd. case field (fst kd) d of None \<Rightarrow> VNull | Some v \<Rightarrow> v) (ix_keys ix)"

definition violates :: "doc list \<Rightarrow> doc \<Rightarrow> index \<Rightarrow> bool" where
  "violates ds d ix = (ix_unique ix \<and> index_key ix d \<in> set (map (index_key ix) ds))"

text \<open>
  Inserting a document gives it a fresh ObjectId and appends it, unless a unique index of
  the collection already holds its key: then the store rejects it and nothing changes.
\<close>

definition insert_doc :: "string \<Rightarrow> fields \<Rightarrow> doc M" where
  "insert_doc name fs = (\<lambda>s.
     let c = get_coll name (store s);
         d = \<lparr>doc_id = next_oid (store s), doc_fields = fs\<rparr>
     in if list_ex (violates (docs c) d) (indexes c) then (Inl DuplicateKey, s)
        else (Inr d, s\<lparr>store := (put_coll name (c\<lparr>docs := docs c @ [d]\<rparr>) (store s))
                                   \<lparr>next_oid := Suc (next_oid (store s))\<rparr>\<rparr>))"

definition insertOne :: "string \<Rightarrow> fields \<Rightarrow> unit M" where
  "insertOne name fs = bindM (insert_doc name fs) (\<lambda>_. return ())"

text \<open>
  \<^verbatim>\<open>createIndex(keys, {unique, name})\<close>: nothing to do when the index of that name exists
  with the same keys and options; an error when the name exists with another definition or
  the keys are indexed under another name; a unique index is not built over documents that
  share a key.
\<close>

definition createIndex :: "string \<Rightarrow> (string \<times> int) list \<Rightarrow> bool \<Rightarrow> string \<Rightarrow> unit M" where
  "createIndex coll keys uniq name = (\<lambda>s.
     let c = get_coll coll (store s);
         ix = \<lparr>ix_name = name, ix_keys = keys, ix_unique = uniq\<rparr>
     in case find (\<lambda>i. ix_name i = name) (indexes c) of
          Some i \<Rightarrow> if i = ix then (Inr (), s) else (Inl IndexConflict, s)
        | None \<Rightarrow>
            if list_ex (\<lambda>i. ix_keys i = keys) (indexes c) then (Inl IndexConflict, s)
            else if uniq \<and> \<not> distinct (map (index_key ix) (docs c)) then (Inl DuplicateKey, s)
            else (Inr (), s\<lparr>store := put_coll coll (c\<lparr>indexes := indexes c @ [ix]\<rparr>) (store s)\<rparr>))"

subsection \<open>Reads and upserts\<close>

definition findOne :: "string \<Rightarrow> fields \<Rightarrow> doc option M" where
  "findOne coll q = (\<lambda>s. (Inr (find (matches q) (docs (get_coll coll (store s)))), s))"

text \<open>
  The script calls \<^verbatim>\<open>findOneAndUpdate(filter, {$setOnInsert: u}, {upsert: true,
  returnDocument: "after"})\<close> and is written for a shell that may return \<^verbatim>\<open>null\<close> instead
  of the document (lines 102, 103 and 147). Whether the call returns the document is a
  property of the shell: one flag for a call that matched, one for a call that inserted.
\<close>

record driver =
  returns_matched :: bool
  returns_upserted :: bool

definition findOneAndUpdate :: "driver \<Rightarrow> string \<Rightarrow> fields \<Rightarrow> fields \<Rightarrow> doc option M" where
  "findOneAndUpdate drv coll q u = (\<lambda>s.
     case find (matches q) (docs (get_coll coll (store s))) of
       Some d \<Rightarrow> (Inr (if returns_matched drv then Some d else None), s)
     | None \<Rightarrow>
         bindM (insert_doc coll (upsert_fields q u))
           (\<lambda>d. return (if returns_upserted drv then Some d else None)) s)"

text \<open>\<^verbatim>\<open>updateOne(filter, {$setOnInsert: u}, {upsert: true})\<close>; the script drops its result.\<close>

definition updateOne :: "string \<Rightarrow> fields \<Rightarrow> fields \<Rightarrow> unit M" where
  "updateOne coll q u = (\<lambda>s.
     case find (matches q) (docs (get_coll coll (store s))) of
       Some d \<Rightarrow> (Inr (), s)
     | None \<Rightarrow> bindM (insert_doc coll (upsert_fields q u)) (\<lambda>_. return ()) s)"

section \<open>The script\<close>

text \<open>Lines 25 to 34.\<close>

definition ensureCollection :: "string \<Rightarrow> string M" where
  "ensureCollection name =
     bindM (getCollectionInfos name) (\<lambda>infos.
     bindM (if \<not> (length infos > 0)
            then bindM (createCollection name) (\<lambda>_. print (Created_collection name))
            else print (Collection_exists name)) (\<lambda>_.
     getCollection name))"

text \<open>Lines 36 to 62: the four collections, then the seven indexes.\<close>

definition provision :: "(string \<times> string \<times> string \<times> string) M" where
  "provision =
     bindM (ensureCollection ''users'') (\<lambda>users.
     bindM (ensureCollection ''deliveries'') (\<lambda>deliveries.
     bindM (ensureCollection ''tracking_events'') (\<lambda>trackingEvents.
     bindM (ensureCollection ''notifications'') (\<lambda>notifications.
     bindM (createIndex users [(''email'', 1)] True ''users_email_unique'') (\<lambda>_.
     bindM (createIndex deliveries [(''customerId'', 1)] False ''deliveries_customerId'') (\<lambda>_.
     bindM (createIndex deliveries [(''courierId'', 1)] False ''deliveries_courierId'') (\<lambda>_.
     bindM (createIndex deliveries [(''status'', 1)] False ''deliveries_status'') (\<lambda>_.
     bindM (createIndex deliveries [(''createdAt'', - 1)] False ''deliveries_createdAt_desc'') (\<lambda>_.
     bindM (createIndex trackingEvents [(''deliveryId'', 1), (''createdAt'', - 1)] False
              ''tracking_deliveryId_createdAt_desc'') (\<lambda>_.
     bindM (createIndex notifications [(''userId'', 1), (''read'', 1)] False
              ''notifications_userId_read'') (\<lambda>_.
     bindM (print Indexes_ensured) (\<lambda>_.
     return (users, deliveries, trackingEvents, notifications)))))))))))))"

text \<open>The payloads of the seed, lines 68 to 199. \<open>now\<close> is the clock read at line 16.\<close>

definition customerEmail :: string where
  "customerEmail = ''customer@example.com''"

definition courierEmail :: string where
  "courierEmail = ''courier@example.com''"

definition customer_payload :: "int \<Rightarrow> fields" where
  "customer_payload now =
     [(''email'', VStr customerEmail),
      (''password_hash'', VStr ''$2b$10$seed.placeholder.hash.for.customer''),
      (''role'', VStr ''customer''),
      (''name'', VStr ''Seed Customer''),
      (''phone'', VStr ''+15550000001''),
      (''createdAt'', VDate now)]"

definition courier_payload :: "int \<Rightarrow> fields" where
  "courier_payload now =
     [(''email'', VStr courierEmail),
      (''password_hash'', VStr ''$2b$10$seed.placeholder.hash.for.courier''),
      (''role'', VStr ''courier''),
      (''name'', VStr ''Seed Courier''),
      (''phone'', VStr ''+15550000002''),
      (''createdAt'', VDate now)]"

definition deliveryMarker :: string where
  "deliveryMarker = ''seed_delivery_1''"

definition delivery_payload :: "nat \<Rightarrow> int \<Rightarrow> fields" where
  "delivery_payload customerId now =
     [(''seedMarker'', VStr deliveryMarker),
      (''customerId'', VId customerId),
      (''courierId'', VNull),
      (''pickupAddress'', VDoc
         [(''line1'', VStr ''123 Pickup St''),
          (''city'', VStr ''San Francisco''),
          (''state'', VStr ''CA''),
          (''postalCode'', VStr ''94103''),
          (''country'', VStr ''US'')]),
      (''dropoffAddress'', VDoc
         [(''line1'', VStr ''987 Dropoff Ave''),
          (''city'', VStr ''San Francisco''),
          (''state'', VStr ''CA''),
          (''postalCode'', VStr ''94107''),
          (''country'', VStr ''US'')]),
      (''packageDetails'', VDoc
         [(''description'', VStr ''Small box''),
          (''weightKg'', VNum (12 / 10)),
          (''fragile'', VBool False)]),
      (''price'', VNum (1999 / 100)),
      (''status'', VStr ''requested''),
      (''createdAt'', VDate now),
      (''updatedAt'', VDate now)]"

definition event1 :: "nat \<Rightarrow> int \<Rightarrow> fields" where
  "event1 deliveryId now =
     [(''deliveryId'', VId deliveryId),
      (''location'', VDoc [(''lat'', VNum (377749 / 10000)), (''lng'', VNum (- (1224194 / 10000)))]),
      (''heading'', VNum 90),
      (''speed'', VNum 0),
      (''createdAt'', VDate (now - 2 * 60 * 1000)),
      (''seedMarker'', VStr ''seed_tracking_1'')]"

definition event2 :: "nat \<Rightarrow> int \<Rightarrow> fields" where
  "event2 deliveryId now =
     [(''deliveryId'', VId deliveryId),
      (''location'', VDoc [(''lat'', VNum (377765 / 10000)), (''lng'', VNum (- (1224172 / 10000)))]),
      (''heading'', VNum 95),
      (''speed'', VNum (42 / 10)),
      (''createdAt'', VDate (now - 1 * 60 * 1000)),
      (''seedMarker'', VStr ''seed_tracking_2'')]"

definition seedMarker_of :: "fields \<Rightarrow> fields" where
  "seedMarker_of e = (case map_of e ''seedMarker'' of None \<Rightarrow> [] | Some m \<Rightarrow> [(''seedMarker'', m)])"

definition notification_payload :: "nat \<Rightarrow> int \<Rightarrow> fields" where
  "notification_payload customerId now =
     [(''seedMarker'', VStr ''seed_notification_1''),
      (''userId'', VId customerId),
      (''type'', VStr ''delivery_requested''),
      (''title'', VStr ''Delivery requested''),
      (''message'', VStr ''Your delivery request has been created.''),
      (''read'', VBool False),
      (''createdAt'', VDate now)]"

text \<open>
  Lines 102 and 103, \<^verbatim>\<open>upsert?._id || coll.findOne(key)._id\<close>: the identifier of the
  returned document (an ObjectId is an object, hence truthy); when nothing was returned, a
  second lookup by the same key, and reading \<^verbatim>\<open>_id\<close> of \<^verbatim>\<open>null\<close> throws.
\<close>

definition id_or_lookup :: "doc option \<Rightarrow> string \<Rightarrow> fields \<Rightarrow> nat M" where
  "id_or_lookup upsert coll key =
     (case upsert of
        Some d \<Rightarrow> return (doc_id d)
      | None \<Rightarrow> bindM (findOne coll key) (\<lambda>found.
          case found of None \<Rightarrow> throw TypeError | Some d \<Rightarrow> return (doc_id d)))"

text \<open>
  Lines 147 and 148, \<^verbatim>\<open>(upsert || coll.findOne(key))._id\<close>: the same with the document
  chosen first and its identifier read afterwards.
\<close>

definition doc_or_lookup :: "doc option \<Rightarrow> string \<Rightarrow> fields \<Rightarrow> doc option M" where
  "doc_or_lookup upsert coll key =
     (case upsert of Some d \<Rightarrow> return (Some d) | None \<Rightarrow> findOne coll key)"

definition read_id :: "doc option \<Rightarrow> nat M" where
  "read_id d = (case d of None \<Rightarrow> throw TypeError | Some d' \<Rightarrow> return (doc_id d'))"

text \<open>Lines 68 to 202.\<close>

definition seed :: "driver \<Rightarrow> int \<Rightarrow> (string \<times> string \<times> string \<times> string) \<Rightarrow> unit M" where
  "seed drv now handles =
     (case handles of (users, deliveries, trackingEvents, notifications) \<Rightarrow>
     bindM (findOneAndUpdate drv users [(''email'', VStr customerEmail)] (customer_payload now))
       (\<lambda>customerUpsert.
     bindM (findOneAndUpdate drv users [(''email'', VStr courierEmail)] (courier_payload now))
       (\<lambda>courierUpsert.
     bindM (id_or_lookup customerUpsert users [(''email'', VStr customerEmail)]) (\<lambda>customerId.
     bindM (id_or_lookup courierUpsert users [(''email'', VStr courierEmail)]) (\<lambda>courierId.
     bindM (print (Customer_id customerId)) (\<lambda>_.
     bindM (print (Courier_id courierId)) (\<lambda>_.
     bindM (findOneAndUpdate drv deliveries [(''seedMarker'', VStr deliveryMarker)]
              (delivery_payload customerId now)) (\<lambda>deliveryUpsert.
     bindM (doc_or_lookup deliveryUpsert deliveries [(''seedMarker'', VStr deliveryMarker)])
       (\<lambda>delivery.
     bindM (read_id delivery) (\<lambda>deliveryId.
     bindM (print (Delivery_id deliveryId)) (\<lambda>_.
     bindM (updateOne trackingEvents (seedMarker_of (event1 deliveryId now))
              (event1 deliveryId now)) (\<lambda>_.
     bindM (updateOne trackingEvents (seedMarker_of (event2 deliveryId now))
              (event2 deliveryId now)) (\<lambda>_.
     bindM (print Tracking_events_ensured) (\<lambda>_.
     bindM (updateOne notifications [(''seedMarker'', VStr ''seed_notification_1'')]
              (notification_payload customerId now)) (\<lambda>_.
     bindM (print Notification_ensured) (\<lambda>_.
     print Complete))))))))))))))))"

text \<open>Lines 15 to 203, for the clock value \<open>now\<close> of line 16.\<close>

definition main :: "driver \<Rightarrow> int \<Rightarrow> unit M" where
  "main drv now = bindM provision (seed drv now)"

text \<open>The store before anything was created, and a shell that has printed nothing.\<close>

definition empty_db :: db where
  "empty_db = \<lparr>colls = [], next_oid = 0\<rparr>"

definition fresh :: shell where
  "fresh = \<lparr>store = empty_db, console = []\<rparr>"

section \<open>Notions used to state the properties\<close>

text \<open>Running the script several times in succession, each run with its own clock value.\<close>

fun runs :: "driver \<Rightarrow> int list \<Rightarrow> unit M" where
  "runs drv [] = return ()"
| "runs drv (now # nows) = bindM (main drv now) (\<lambda>_. runs drv nows)"

definition coll_docs :: "string \<Rightarrow> shell \<Rightarrow> doc list" where
  "coll_docs c s = docs (get_coll c (store s))"

definition coll_indexes :: "string \<Rightarrow> shell \<Rightarrow> index list" where
  "coll_indexes c s = indexes (get_coll c (store s))"

definition count_docs :: "string \<Rightarrow> fields \<Rightarrow> shell \<Rightarrow> nat" where
  "count_docs c q s = length (filter (matches q) (coll_docs c s))"

text \<open>
  The store after a first run on the empty store at clock value \<open>now\<close>: six documents,
  numbered in the order of their creation, and seven indexes.
\<close>

definition seeded :: "int \<Rightarrow> db" where
  "seeded now =
     \<lparr>colls =
        [(''users'',
          \<lparr>docs = [\<lparr>doc_id = 0, doc_fields = customer_payload now\<rparr>,
                   \<lparr>doc_id = 1, doc_fields = courier_payload now\<rparr>],
           indexes =
             [\<lparr>ix_name = ''users_email_unique'', ix_keys = [(''email'', 1)], ix_unique = True\<rparr>]\<rparr>),
         (''deliveries'',
          \<lparr>docs = [\<lparr>doc_id = 2, doc_fields = delivery_payload 0 now\<rparr>],
           indexes =
             [\<lparr>ix_name = ''deliveries_customerId'', ix_keys = [(''customerId'', 1)],
               ix_unique = False\<rparr>,
              \<lparr>ix_name = ''deliveries_courierId'', ix_keys = [(''courierId'', 1)],
               ix_unique = False\<rparr>,
              \<lparr>ix_name = ''deliveries_status'', ix_keys = [(''status'', 1)], ix_unique = False\<rparr>,
              \<lparr>ix_name = ''deliveries_createdAt_desc'', ix_keys = [(''createdAt'', - 1)],
               ix_unique = False\<rparr>]\<rparr>),
         (''tracking_events'',
          \<lparr>docs =
             [\<lparr>doc_id = 3,
               doc_fields = upsert_fields [(''seedMarker'', VStr ''seed_tracking_1'')] (event1 2 now)\<rparr>,
              \<lparr>doc_id = 4,
               doc_fields = upsert_fields [(''seedMarker'', VStr ''seed_tracking_2'')] (event2 2 now)\<rparr>],
           indexes =
             [\<lparr>ix_name = ''tracking_deliveryId_createdAt_desc'',
               ix_keys = [(''deliveryId'', 1), (''createdAt'', - 1)], ix_unique = False\<rparr>]\<rparr>),
         (''notifications'',
          \<lparr>docs = [\<lparr>doc_id = 5, doc_fields = notification_payload 0 now\<rparr>],
           indexes =
             [\<lparr>ix_name = ''notifications_userId_read'',
               ix_keys = [(''userId'', 1), (''read'', 1)], ix_unique = False\<rparr>]\<rparr>)],
      next_oid = 6\<rparr>"

text \<open>
  Sorting as the store does it. Values of different types compare by type, in the order of
  the constructors of \<^typ>\<open>val\<close>; strings compare byte by byte; embedded documents field by
  field (type, then name, then value), the shorter one first.
\<close>

fun type_rank :: "val \<Rightarrow> nat" where
  "type_rank VNull = 0"
| "type_rank (VNum _) = 1"
| "type_rank (VStr _) = 2"
| "type_rank (VDoc _) = 3"
| "type_rank (VId _) = 4"
| "type_rank (VBool _) = 5"
| "type_rank (VDate _) = 6"

definition cmp :: "'a::linorder \<Rightarrow> 'a \<Rightarrow> int" where
  "cmp a b = (if a < b then - 1 else if b < a then 1 else 0)"

fun cmp_str :: "string \<Rightarrow> string \<Rightarrow> int" where
  "cmp_str [] [] = 0"
| "cmp_str [] (y # ys) = - 1"
| "cmp_str (x # xs) [] = 1"
| "cmp_str (x # xs) (y # ys) =
     (if cmp (of_char x :: nat) (of_char y) \<noteq> 0 then cmp (of_char x :: nat) (of_char y)
      else cmp_str xs ys)"

fun cmp_val :: "val \<Rightarrow> val \<Rightarrow> int"
  and cmp_fields :: "fields \<Rightarrow> fields \<Rightarrow> int" where
  "cmp_val (VNum a) (VNum b) = cmp a b"
| "cmp_val (VStr a) (VStr b) = cmp_str a b"
| "cmp_val (VDoc a) (VDoc b) = cmp_fields a b"
| "cmp_val (VId a) (VId b) = cmp a b"
| "cmp_val (VBool a) (VBool b) = cmp a b"
| "cmp_val (VDate a) (VDate b) = cmp a b"
| "cmp_val a b = cmp (type_rank a) (type_rank b)"
| "cmp_fields [] [] = 0"
| "cmp_fields [] (y # ys) = - 1"
| "cmp_fields (x # xs) [] = 1"
| "cmp_fields ((k, v) # xs) ((k', v') # ys) =
     (if cmp (type_rank v) (type_rank v') \<noteq> 0 then cmp (type_rank v) (type_rank v')
      else if cmp_str k k' \<noteq> 0 then cmp_str k k'
      else if cmp_val v v' \<noteq> 0 then cmp_val v v'
      else cmp_fields xs ys)"

text \<open>Comparing two documents by the keys of an index: 1 ascending, -1 descending.\<close>

definition key_val :: "string \<Rightarrow> doc \<Rightarrow> val" where
  "key_val k d = (case field k d of None \<Rightarrow> VNull | Some v \<Rightarrow> v)"

fun cmp_docs :: "(string \<times> int) list \<Rightarrow> doc \<Rightarrow> doc \<Rightarrow> int" where
  "cmp_docs [] a b = 0"
| "cmp_docs ((k, dir) # keys) a b =
     (if cmp_val (key_val k a) (key_val k b) \<noteq> 0
      then (if dir < 0 then - cmp_val (key_val k a) (key_val k b)
            else cmp_val (key_val k a) (key_val k b))
      else cmp_docs keys a b)"

fun insert_sorted :: "(string \<times> int) list \<Rightarrow> doc \<Rightarrow> doc list \<Rightarrow> doc list" where
  "insert_sorted keys d [] = [d]"
| "insert_sorted keys d (x # xs) =
     (if cmp_docs keys d x \<le> 0 then d # x # xs else x # insert_sorted keys d xs)"

definition sort_docs :: "(string \<times> int) list \<Rightarrow> doc list \<Rightarrow> doc list" where
  "sort_docs keys ds = foldr (insert_sorted keys) ds []"

text \<open>\<^verbatim>\<open>coll.find(q).sort(keys)\<close>.\<close>

definition find_sorted :: "string \<Rightarrow> fields \<Rightarrow> (string \<times> int) list \<Rightarrow> shell \<Rightarrow> doc list" where
  "find_sorted c q keys s = sort_docs keys (filter (matches q) (coll_docs c s))"

text \<open>Whether an ObjectId occurs in a value, at any depth.\<close>

fun mentions :: "nat \<Rightarrow> val \<Rightarrow> bool"
  and mentions_in :: "nat \<Rightarrow> fields \<Rightarrow> bool" where
  "mentions i (VId j) = (i = j)"
| "mentions i (VDoc fs) = mentions_in i fs"
| "mentions i VNull = False"
| "mentions i (VNum _) = False"
| "mentions i (VStr _) = False"
| "mentions i (VBool _) = False"
| "mentions i (VDate _) = False"
| "mentions_in i [] = False"
| "mentions_in i ((k, v) # rest) = (mentions i v \<or> mentions_in i rest)"

definition references :: "nat \<Rightarrow> shell \<Rightarrow> doc list" where
  "references i s =
     concat (map (\<lambda>nc. filter (\<lambda>d. mentions_in i (doc_fields d)) (docs (snd nc))) (colls (store s)))"

text \<open>
  The documents a run has added to a collection: those after the ones that were there
  when it started (documents are only ever appended).
\<close>

definition created :: "string \<Rightarrow> shell \<Rightarrow> shell \<Rightarrow> doc list" where
  "created c s0 s = drop (length (coll_docs c s0)) (coll_docs c s)"

text \<open>
  A document refers to its parent through the field \<open>k\<close> when that field holds the
  identifier of a document of the parent collection that matches the parent's key.
\<close>

definition parent_of :: "string \<Rightarrow> fields \<Rightarrow> nat \<Rightarrow> shell \<Rightarrow> bool" where
  "parent_of c q n s = list_ex (\<lambda>d. matches q d \<and> doc_id d = n) (coll_docs c s)"

definition refers :: "string \<Rightarrow> string \<Rightarrow> fields \<Rightarrow> shell \<Rightarrow> doc \<Rightarrow> bool" where
  "refers k c q s d =
     (case field k d of
        Some (VId n) \<Rightarrow> parent_of c q n s
      | _ \<Rightarrow> False)"

definition customer_key :: fields where
  "customer_key = [(''email'', VStr customerEmail)]"

definition courier_key :: fields where
  "courier_key = [(''email'', VStr courierEmail)]"

definition delivery_key :: fields where
  "delivery_key = [(''seedMarker'', VStr deliveryMarker)]"

text \<open>The field names of a user document as the script writes them, after \<^verbatim>\<open>_id\<close>.\<close>

definition user_field_names :: "string list" where
  "user_field_names = [''email'', ''password_hash'', ''role'', ''name'', ''phone'', ''createdAt'']"

text \<open>The field names of a user document as the data model of the specification lists them.\<close>

definition spec_user_field_names :: "string list" where
  "spec_user_field_names = [''email'', ''passwordHash'', ''role'', ''name'', ''phone'', ''createdAt'']"


text \<open>An index is in place when the collection reports it under its name.\<close>

definition has_index :: "string \<Rightarrow> index \<Rightarrow> shell \<Rightarrow> bool" where
  "has_index c ix s = (find (\<lambda>i. ix_name i = ix_name ix) (coll_indexes c s) = Some ix)"

definition has_coll :: "string \<Rightarrow> shell \<Rightarrow> bool" where
  "has_coll c s = (map_of (colls (store s)) c \<noteq> None)"


text \<open>The index table of the specification, section 4.2.\<close>

definition index_table :: "(string \<times> index) list" where
  "index_table =
     [(''users'', \<lparr>ix_name = ''users_email_unique'', ix_keys = [(''email'', 1)], ix_unique = True\<rparr>),
      (''deliveries'', \<lparr>ix_name = ''deliveries_customerId'', ix_keys = [(''customerId'', 1)],
         ix_unique = False\<rparr>),
      (''deliveries'', \<lparr>ix_name = ''deliveries_courierId'', ix_keys = [(''courierId'', 1)],
         ix_unique = False\<rparr>),
      (''deliveries'', \<lparr>ix_name = ''deliveries_status'', ix_keys = [(''status'', 1)],
         ix_unique = False\<rparr>),
      (''deliveries'', \<lparr>ix_name = ''deliveries_createdAt_desc'', ix_keys = [(''createdAt'', - 1)],
         ix_unique = False\<rparr>),
      (''tracking_events'', \<lparr>ix_name = ''tracking_deliveryId_createdAt_desc'',
         ix_keys = [(''deliveryId'', 1), (''createdAt'', - 1)], ix_unique = False\<rparr>),
      (''notifications'', \<lparr>ix_name = ''notifications_userId_read'',
         ix_keys = [(''userId'', 1), (''read'', 1)], ix_unique = False\<rparr>)]"

definition table_for :: "string \<Rightarrow> index list" where
  "table_for c = map snd (filter (\<lambda>ci. fst ci = c) index_table)"

definition provisioned :: "shell \<Rightarrow> bool" where
  "provisioned s =
     (list_all (\<lambda>c. has_coll c s) [''users'', ''deliveries'', ''tracking_events'', ''notifications''] \<and>
      list_all (\<lambda>ci. has_index (fst ci) (snd ci) s) index_table)"

section \<open>Notions used in the proofs\<close>

text \<open>
  A step \<open>m\<close> started in a state satisfying \<open>P\<close> ends in a state satisfying \<open>Q\<close> with its
  result, or throws \<open>e\<close> in a state satisfying \<open>E e\<close>.
\<close>

definition triple :: "(shell \<Rightarrow> bool) \<Rightarrow> 'a M \<Rightarrow> ('a \<Rightarrow> shell \<Rightarrow> bool) \<Rightarrow> (err \<Rightarrow> shell \<Rightarrow> bool) \<Rightarrow> bool" where
  "triple P m Q E =
     (\<forall>s. P s \<longrightarrow> (case m s of (Inl e, s') \<Rightarrow> E e s' | (Inr x, s') \<Rightarrow> Q x s'))"

text \<open>The store only grows: documents and indexes are appended, collections stay.\<close>

definition grows :: "shell \<Rightarrow> shell \<Rightarrow> bool" where
  "grows s s' =
     (\<forall>c. prefix (coll_docs c s) (coll_docs c s') \<and>
          prefix (coll_indexes c s) (coll_indexes c s') \<and>
          (has_coll c s \<longrightarrow> has_coll c s'))"

definition same_docs :: "shell \<Rightarrow> shell \<Rightarrow> bool" where
  "same_docs s s' = (\<forall>c. coll_docs c s' = coll_docs c s)"

text \<open>A step that adds no document and does not throw a TypeError.\<close>

definition quiet :: "'a M \<Rightarrow> bool" where
  "quiet m = (\<forall>s. same_docs s (snd (m s)) \<and> grows s (snd (m s)) \<and> fst (m s) \<noteq> Inl TypeError)"

text \<open>A step that only lets the store grow.\<close>

definition growing :: "'a M \<Rightarrow> bool" where
  "growing m = (\<forall>s. grows s (snd (m s)))"

definition mono :: "(shell \<Rightarrow> bool) \<Rightarrow> bool" where
  "mono K = (\<forall>s s'. grows s s' \<longrightarrow> K s \<longrightarrow> K s')"


text \<open>What holds of every document the script creates, by collection.\<close>

definition created_ok :: "string \<Rightarrow> shell \<Rightarrow> doc \<Rightarrow> bool" where
  "created_ok c s d =
     (if c = ''users'' then
        map fst (doc_fields d) = user_field_names \<and>
        (field ''role'' d = Some (VStr ''customer'') \<or> field ''role'' d = Some (VStr ''courier''))
      else if c = ''deliveries'' then
        refers ''customerId'' ''users'' customer_key s d \<and> field ''courierId'' d = Some VNull
      else if c = ''tracking_events'' then
        refers ''deliveryId'' ''deliveries'' delivery_key s d
      else if c = ''notifications'' then
        refers ''userId'' ''users'' customer_key s d
      else True)"

definition created_inv :: "shell \<Rightarrow> shell \<Rightarrow> bool" where
  "created_inv s0 s = (grows s0 s \<and> (\<forall>c. list_all (created_ok c s) (created c s0 s)))"

text \<open>
  What is known of the result of an upsert: the collection holds a document matching the
  key, and a returned document is one of them.
\<close>

definition resolved :: "string \<Rightarrow> fields \<Rightarrow> doc option \<Rightarrow> shell \<Rightarrow> bool" where
  "resolved c q r s =
     (list_ex (matches q) (coll_docs c s) \<and>
      (case r of None \<Rightarrow> True | Some d \<Rightarrow> parent_of c q (doc_id d) s))"

definition got :: "string \<Rightarrow> fields \<Rightarrow> doc option \<Rightarrow> shell \<Rightarrow> bool" where
  "got c q r s = (case r of None \<Rightarrow> False | Some d \<Rightarrow> parent_of c q (doc_id d) s)"


text \<open>
  The documents a run creates, listed by collection in the order of dependency: users,
  deliveries, tracking events, notifications. The generator numbers documents in the order
  of their insertion, so this list has increasing identifiers exactly when every user the
  run creates is created before every delivery, every delivery before every tracking event
  and every tracking event before every notification.
\<close>

definition seq_of :: "(string \<Rightarrow> doc list) \<Rightarrow> doc list" where
  "seq_of cr = cr ''users'' @ cr ''deliveries'' @ cr ''tracking_events'' @ cr ''notifications''"

definition created_seq :: "shell \<Rightarrow> shell \<Rightarrow> doc list" where
  "created_seq s0 s = seq_of (\<lambda>c. created c s0 s)"

text \<open>
  After \<open>k\<close> of the six upserts, what each collection may have received, by key, and in
  which order.
\<close>

definition ord_shape :: "nat \<Rightarrow> (string \<Rightarrow> doc list) \<Rightarrow> bool" where
  "ord_shape k cr =
     (subseq (map (field ''email'') (cr ''users''))
        (take k [Some (VStr customerEmail), Some (VStr courierEmail)]) \<and>
      subseq (map (field ''seedMarker'') (cr ''deliveries''))
        (take (k - 2) [Some (VStr deliveryMarker)]) \<and>
      subseq (map (field ''seedMarker'') (cr ''tracking_events''))
        (take (k - 3) [Some (VStr ''seed_tracking_1''), Some (VStr ''seed_tracking_2'')]) \<and>
      subseq (map (field ''seedMarker'') (cr ''notifications''))
        (take (k - 5) [Some (VStr ''seed_notification_1'')]))"

definition ord_inv :: "nat \<Rightarrow> shell \<Rightarrow> shell \<Rightarrow> bool" where
  "ord_inv k s0 s =
     (grows s0 s \<and>
      sorted_wrt (<) (map doc_id (created_seq s0 s)) \<and>
      list_all (\<lambda>d. doc_id d < next_oid (store s)) (created_seq s0 s) \<and>
      ord_shape k (\<lambda>c. created c s0 s))"

text \<open>A step that adds no document and takes no identifier from the generator.\<close>

definition calm :: "'a M \<Rightarrow> bool" where
  "calm m =
     (\<forall>s. same_docs s (snd (m s)) \<and> grows s (snd (m s)) \<and>
          next_oid (store (snd (m s))) = next_oid (store s))"

section \<open>Concrete shells and stores\<close>

text \<open>A shell that returns the document from every upsert, and one that never does.\<close>

definition drv_doc :: driver where
  "drv_doc = \<lparr>returns_matched = True, returns_upserted = True\<rparr>"

definition drv_null :: driver where
  "drv_null = \<lparr>returns_matched = False, returns_upserted = False\<rparr>"

text \<open>
  A store in which the seeded delivery was changed after its creation: a courier was
  assigned and the status moved on from "requested".
\<close>

definition delivered_doc :: doc where
  "delivered_doc =
     \<lparr>doc_id = 2,
      doc_fields =
        [(''seedMarker'', VStr deliveryMarker), (''customerId'', VId 0), (''courierId'', VId 1),
         (''status'', VStr ''delivered''), (''createdAt'', VDate 1000),
         (''updatedAt'', VDate 9000)]\<rparr>"

definition in_progress :: shell where
  "in_progress =
     \<lparr>store = \<lparr>colls = [(''deliveries'', \<lparr>docs = [delivered_doc], indexes = []\<rparr>)], next_oid = 3\<rparr>,
      console = []\<rparr>"


text \<open>
  A store that was in use before the script ran on it: the customer and the seeded delivery
  exist, with identifiers of their own; the courier, the tracking events and the
  notification do not.
\<close>

definition in_use :: shell where
  "in_use =
     \<lparr>store =
        \<lparr>colls =
           [(''users'', \<lparr>docs = [\<lparr>doc_id = 10, doc_fields = customer_payload 1000\<rparr>], indexes = []\<rparr>),
            (''deliveries'',
             \<lparr>docs = [\<lparr>doc_id = 11, doc_fields = delivery_payload 10 1000\<rparr>], indexes = []\<rparr>)],
         next_oid = 12\<rparr>,
      console = []\<rparr>"



section \<open>The operations of the store\<close>

lemma map_of_put_assoc: "map_of (put_assoc n c l) = (map_of l)(n \<mapsto> c)"
  by (induction l) (auto simp: fun_eq_iff)

lemma get_put_coll: "get_coll n' (put_coll n c d) = (if n' = n then c else get_coll n' d)"
  by (simp add: get_coll_def put_coll_def map_of_put_assoc)

lemma colls_put_coll:
  "map_of (colls (put_coll n c d)) n' = (if n' = n then Some c else map_of (colls d) n')"
  by (simp add: put_coll_def map_of_put_assoc)

lemma get_coll_next_oid [simp]: "get_coll n (d\<lparr>next_oid := x\<rparr>) = get_coll n d"
  by (simp add: get_coll_def)

lemma get_coll_absent: "map_of (colls d) n = None \<Longrightarrow> get_coll n d = empty_collection"
  by (simp add: get_coll_def)

lemma console_views [simp]:
  "coll_docs c (s\<lparr>console := x\<rparr>) = coll_docs c s"
  "coll_indexes c (s\<lparr>console := x\<rparr>) = coll_indexes c s"
  "has_coll c (s\<lparr>console := x\<rparr>) = has_coll c s"
  "has_index c ix (s\<lparr>console := x\<rparr>) = has_index c ix s"
  by (simp_all add: coll_docs_def coll_indexes_def has_coll_def has_index_def)

lemma infos_empty:
  "(filter (\<lambda>x. x = n) (map fst l) = []) = (map_of l n = None)"
  by (simp only: filter_empty_conv map_of_eq_None_iff) auto

subsection \<open>Each operation by its effect\<close>

lemma print_effect:
  "print l s = (Inr (), s\<lparr>console := console s @ [l]\<rparr>)"
  by (simp add: print_def)

lemma ensureCollection_effect:
  "ensureCollection n s =
     (Inr n,
      if has_coll n s then s\<lparr>console := console s @ [Collection_exists n]\<rparr>
      else s\<lparr>store := put_coll n empty_collection (store s),
             console := console s @ [Created_collection n]\<rparr>)"
  by (simp add: ensureCollection_def getCollectionInfos_def createCollection_def
      getCollection_def bindM_def return_def print_def has_coll_def infos_empty)

lemma ensureCollection_views:
  "coll_docs c (snd (ensureCollection n s)) = coll_docs c s"
  "coll_indexes c (snd (ensureCollection n s)) = coll_indexes c s"
  "has_coll c (snd (ensureCollection n s)) = (c = n \<or> has_coll c s)"
  by (auto simp: ensureCollection_effect coll_docs_def coll_indexes_def has_coll_def
      get_put_coll colls_put_coll get_coll_absent)

lemma insert_doc_fail:
  "insert_doc n fs s = (Inl e, s') \<Longrightarrow> s' = s \<and> e = DuplicateKey"
  by (auto simp: insert_doc_def Let_def split: if_splits)

lemma insert_doc_ok:
  assumes "insert_doc n fs s = (Inr d, s')"
  shows "d = \<lparr>doc_id = next_oid (store s), doc_fields = fs\<rparr>"
    and "coll_docs c s' = (if c = n then coll_docs n s @ [d] else coll_docs c s)"
    and "coll_indexes c s' = coll_indexes c s"
    and "has_coll c s' = (c = n \<or> has_coll c s)"
    and "\<not> list_ex (violates (coll_docs n s) d) (coll_indexes n s)"
  using assms
  by (auto simp: insert_doc_def Let_def coll_docs_def coll_indexes_def has_coll_def
      get_put_coll colls_put_coll split: if_splits)

lemma createIndex_docs:
  "coll_docs c' (snd (createIndex c ks u n s)) = coll_docs c' s"
  by (auto simp: createIndex_def Let_def coll_docs_def get_put_coll
      split: option.splits)

lemma createIndex_colls:
  "has_coll c' s \<Longrightarrow> has_coll c' (snd (createIndex c ks u n s))"
  by (auto simp: createIndex_def Let_def has_coll_def colls_put_coll split: option.splits)

lemma createIndex_indexes:
  "coll_indexes c' (snd (createIndex c ks u n s)) = coll_indexes c' s \<or>
   (c' = c \<and> find (\<lambda>i. ix_name i = n) (coll_indexes c s) = None \<and>
    coll_indexes c' (snd (createIndex c ks u n s)) =
      coll_indexes c s @ [\<lparr>ix_name = n, ix_keys = ks, ix_unique = u\<rparr>] \<and>
    (u \<longrightarrow> distinct (map (index_key \<lparr>ix_name = n, ix_keys = ks, ix_unique = u\<rparr>) (coll_docs c s))))"
  by (auto simp: createIndex_def Let_def coll_indexes_def coll_docs_def get_put_coll
      split: option.splits)

lemma createIndex_error:
  "fst (createIndex c ks u n s) \<noteq> Inl TypeError"
  by (auto simp: createIndex_def Let_def split: option.splits)

lemma find_append_new:
  "find P xs = None \<Longrightarrow> P x \<Longrightarrow> find P (xs @ [x]) = Some x"
  by (induction xs) (auto split: if_splits)

lemma find_append_old:
  "find P xs = Some y \<Longrightarrow> find P (xs @ ys) = Some y"
  by (induction xs) (auto split: if_splits)

lemma find_prefix:
  "find P xs = Some y \<Longrightarrow> prefix xs zs \<Longrightarrow> find P zs = Some y"
  by (auto simp: prefix_def find_append_old)

lemma createIndex_has:
  "createIndex c ks u n s = (Inr x, s') \<Longrightarrow>
   has_index c \<lparr>ix_name = n, ix_keys = ks, ix_unique = u\<rparr> s'"
  by (auto simp: createIndex_def Let_def has_index_def coll_indexes_def get_put_coll
      find_append_new split: option.splits if_splits)

lemma createIndex_noop:
  "has_index c \<lparr>ix_name = n, ix_keys = ks, ix_unique = u\<rparr> s \<Longrightarrow>
   createIndex c ks u n s = (Inr (), s)"
  by (simp add: createIndex_def Let_def has_index_def coll_indexes_def)

lemma find_result:
  "find P xs = Some d \<Longrightarrow> P d \<and> d \<in> set xs"
  by (induction xs) (auto split: if_splits)

lemma findOne_effect:
  "findOne c q s = (Inr (find (matches q) (coll_docs c s)), s)"
  by (simp add: findOne_def coll_docs_def)

text \<open>
  An upsert leaves the store as it is when a document matches, and inserts one document
  otherwise; what it returns then depends on the driver.
\<close>

lemma findOneAndUpdate_effect:
  "findOneAndUpdate drv c q u s =
     (case find (matches q) (coll_docs c s) of
        Some d \<Rightarrow> (Inr (if returns_matched drv then Some d else None), s)
      | None \<Rightarrow>
          (case insert_doc c (upsert_fields q u) s of
             (Inl e, s') \<Rightarrow> (Inl e, s')
           | (Inr d, s') \<Rightarrow> (Inr (if returns_upserted drv then Some d else None), s')))"
  by (simp add: findOneAndUpdate_def coll_docs_def bindM_def return_def
      split: option.splits prod.splits sum.splits)

lemma updateOne_effect:
  "updateOne c q u s =
     (case find (matches q) (coll_docs c s) of
        Some d \<Rightarrow> (Inr (), s)
      | None \<Rightarrow>
          (case insert_doc c (upsert_fields q u) s of
             (Inl e, s') \<Rightarrow> (Inl e, s')
           | (Inr d, s') \<Rightarrow> (Inr (), s')))"
  by (simp add: updateOne_def coll_docs_def bindM_def return_def
      split: option.splits prod.splits sum.splits)

section \<open>Reasoning about runs\<close>

lemma tripleI:
  "(\<And>s. P s \<Longrightarrow> (case m s of (Inl e, s') \<Rightarrow> E e s' | (Inr x, s') \<Rightarrow> Q x s')) \<Longrightarrow> triple P m Q E"
  by (simp add: triple_def)

lemma triple_ok: "triple P m Q E \<Longrightarrow> P s \<Longrightarrow> m s = (Inr x, s') \<Longrightarrow> Q x s'"
  by (auto simp: triple_def split: prod.splits sum.splits)

lemma triple_err: "triple P m Q E \<Longrightarrow> P s \<Longrightarrow> m s = (Inl e, s') \<Longrightarrow> E e s'"
  by (auto simp: triple_def split: prod.splits sum.splits)

lemma triple_bind:
  assumes "triple P m Q E" and "\<And>x. triple (Q x) (f x) R E"
  shows "triple P (bindM m f) R E"
proof (rule tripleI)
  fix s assume p: "P s"
  obtain r s' where ms: "m s = (r, s')" by (cases "m s")
  show "case bindM m f s of (Inl e, s') \<Rightarrow> E e s' | (Inr x, s') \<Rightarrow> R x s'"
  proof (cases r)
    case (Inl e)
    with ms triple_err[OF assms(1) p] show ?thesis by (simp add: bindM_def)
  next
    case (Inr x)
    with ms have "Q x s'" using triple_ok[OF assms(1) p] by simp
    with assms(2)[of x] have "case f x s' of (Inl e, s'') \<Rightarrow> E e s'' | (Inr y, s'') \<Rightarrow> R y s''"
      by (simp add: triple_def)
    with ms Inr show ?thesis by (simp add: bindM_def)
  qed
qed

lemma triple_post:
  "triple P m Q' E \<Longrightarrow> (\<And>x s. Q' x s \<Longrightarrow> Q x s) \<Longrightarrow> triple P m Q E"
  by (auto simp: triple_def split: prod.splits sum.splits)

lemma triple_pre:
  "triple P' m Q E \<Longrightarrow> (\<And>s. P s \<Longrightarrow> P' s) \<Longrightarrow> triple P m Q E"
  by (auto simp: triple_def split: prod.splits sum.splits)

lemma triple_fact:
  "(C \<Longrightarrow> triple P m Q E) \<Longrightarrow> triple (\<lambda>s. P s \<and> C) m Q E"
  by (auto simp: triple_def split: prod.splits sum.splits)

lemma triple_return:
  "triple P (return x) (\<lambda>r s. P s \<and> r = x) E"
  by (simp add: triple_def return_def)

subsection \<open>The store only grows\<close>

lemma grows_refl: "grows s s"
  by (simp add: grows_def)

lemma grows_trans: "grows s s' \<Longrightarrow> grows s' s'' \<Longrightarrow> grows s s''"
  unfolding grows_def by (meson prefix_order.trans)

lemma same_docs_refl: "same_docs s s"
  by (simp add: same_docs_def)

lemma same_docs_trans: "same_docs s s' \<Longrightarrow> same_docs s' s'' \<Longrightarrow> same_docs s s''"
  by (simp add: same_docs_def)

lemma growing_bind:
  assumes "growing m" and "\<And>x. growing (f x)"
  shows "growing (bindM m f)"
  unfolding growing_def
proof
  fix s
  obtain r s' where ms: "m s = (r, s')" by (cases "m s")
  have g: "grows s s'" using assms(1) ms by (metis growing_def snd_conv)
  show "grows s (snd (bindM m f s))"
  proof (cases r)
    case (Inl e)
    with ms g show ?thesis by (simp add: bindM_def)
  next
    case (Inr x)
    have "grows s' (snd (f x s'))" using assms(2)[of x] by (simp add: growing_def)
    with ms Inr g show ?thesis by (simp add: bindM_def) (erule (1) grows_trans)
  qed
qed

lemma quiet_bind:
  assumes "quiet m" and "\<And>x. quiet (f x)"
  shows "quiet (bindM m f)"
  unfolding quiet_def
proof
  fix s
  obtain r s' where ms: "m s = (r, s')" by (cases "m s")
  have q: "same_docs s s'" "grows s s'" "r \<noteq> Inl TypeError"
    using assms(1) ms unfolding quiet_def by (metis fst_conv snd_conv)+
  show "same_docs s (snd (bindM m f s)) \<and> grows s (snd (bindM m f s)) \<and>
        fst (bindM m f s) \<noteq> Inl TypeError"
  proof (cases r)
    case (Inl e)
    with ms q show ?thesis by (simp add: bindM_def)
  next
    case (Inr x)
    have "same_docs s' (snd (f x s'))" "grows s' (snd (f x s'))" "fst (f x s') \<noteq> Inl TypeError"
      using assms(2)[of x] by (simp_all add: quiet_def)
    with ms Inr q show ?thesis
      by (simp add: bindM_def) (meson grows_trans same_docs_trans)
  qed
qed

lemma quiet_growing: "quiet m \<Longrightarrow> growing m"
  by (simp add: quiet_def growing_def)

lemma quiet_return: "quiet (return x)"
  by (simp add: quiet_def return_def same_docs_refl grows_refl)

lemma quiet_print: "quiet (print l)"
  by (simp add: quiet_def print_def same_docs_def grows_def)

lemma quiet_ensureCollection: "quiet (ensureCollection n)"
  unfolding quiet_def same_docs_def grows_def
  by (simp add: ensureCollection_views) (simp add: ensureCollection_effect)

lemma quiet_createIndex: "quiet (createIndex c ks u n)"
  unfolding quiet_def same_docs_def grows_def
proof (intro allI conjI)
  fix s c'
  show "prefix (coll_indexes c' s) (coll_indexes c' (snd (createIndex c ks u n s)))"
    using createIndex_indexes[of c' c ks u n s] by auto
qed (simp_all add: createIndex_docs createIndex_colls createIndex_error)

lemma quiet_findOne: "quiet (findOne c q)"
  by (simp add: quiet_def findOne_effect same_docs_refl grows_refl)

lemma quiet_throw: "e \<noteq> TypeError \<Longrightarrow> quiet (throw e)"
  by (simp add: quiet_def throw_def same_docs_refl grows_refl)

lemma quiet_provision: "quiet provision"
  unfolding provision_def
  by (intro quiet_bind quiet_ensureCollection quiet_createIndex quiet_print quiet_return)

lemma growing_return: "growing (return x)"
  by (simp add: growing_def return_def grows_refl)

lemma growing_throw: "growing (throw e)"
  by (simp add: growing_def throw_def grows_refl)

lemma growing_print: "growing (print l)"
  by (rule quiet_growing[OF quiet_print])

lemma growing_findOne: "growing (findOne c q)"
  by (rule quiet_growing[OF quiet_findOne])

lemma growing_insert_doc: "growing (insert_doc c fs)"
  unfolding growing_def
proof
  fix s
  obtain r s' where ms: "insert_doc c fs s = (r, s')" by (cases "insert_doc c fs s")
  show "grows s (snd (insert_doc c fs s))"
  proof (cases r)
    case (Inl e)
    with ms insert_doc_fail show ?thesis by (fastforce simp: grows_refl)
  next
    case (Inr d)
    with ms have "insert_doc c fs s = (Inr d, s')" by simp
    from insert_doc_ok(2-4)[OF this] ms show ?thesis by (simp add: grows_def)
  qed
qed

lemma growing_findOneAndUpdate: "growing (findOneAndUpdate drv c q u)"
  unfolding findOneAndUpdate_def growing_def
proof
  fix s
  have "growing (bindM (insert_doc c (upsert_fields q u))
                   (\<lambda>d. return (if returns_upserted drv then Some d else None)))"
    by (intro growing_bind growing_insert_doc growing_return)
  then show "grows s (snd (case find (matches q) (docs (get_coll c (store s))) of
       None \<Rightarrow> bindM (insert_doc c (upsert_fields q u))
                 (\<lambda>d. return (if returns_upserted drv then Some d else None)) s
     | Some d \<Rightarrow> (Inr (if returns_matched drv then Some d else None), s)))"
    by (simp add: growing_def grows_refl split: option.splits)
qed

lemma growing_updateOne: "growing (updateOne c q u)"
  unfolding updateOne_def growing_def
proof
  fix s
  have "growing (bindM (insert_doc c (upsert_fields q u)) (\<lambda>_. return ()))"
    by (intro growing_bind growing_insert_doc growing_return)
  then show "grows s (snd (case find (matches q) (docs (get_coll c (store s))) of
       None \<Rightarrow> bindM (insert_doc c (upsert_fields q u)) (\<lambda>_. return ()) s
     | Some d \<Rightarrow> (Inr (), s)))"
    by (simp add: growing_def grows_refl split: option.splits)
qed

lemma growing_id_or_lookup: "growing (id_or_lookup r c q)"
  unfolding id_or_lookup_def
  by (cases r)
     (auto intro!: growing_bind growing_return growing_throw growing_findOne
        split: option.splits)

lemma growing_doc_or_lookup: "growing (doc_or_lookup r c q)"
  unfolding doc_or_lookup_def
  by (cases r) (auto intro!: growing_return growing_findOne)

lemma growing_read_id: "growing (read_id r)"
  unfolding read_id_def by (cases r) (auto intro!: growing_return growing_throw)

lemma growing_seed: "growing (seed drv now h)"
  unfolding seed_def
  by (cases h)
     (auto intro!: growing_bind growing_findOneAndUpdate growing_updateOne growing_id_or_lookup
        growing_doc_or_lookup growing_read_id growing_print)

lemma growing_main: "growing (main drv now)"
  unfolding main_def
  by (intro growing_bind growing_seed quiet_growing quiet_provision)

section \<open>What a run creates\<close>

subsection \<open>Facts that survive the growth of the store\<close>

lemma list_ex_prefix: "list_ex P xs \<Longrightarrow> prefix xs ys \<Longrightarrow> list_ex P ys"
  by (auto simp: prefix_def list_ex_iff)

lemma parent_of_grows: "grows s s' \<Longrightarrow> parent_of c q n s \<Longrightarrow> parent_of c q n s'"
  unfolding parent_of_def grows_def by (blast intro: list_ex_prefix)

lemma mono_parent_of: "mono (parent_of c q n)"
  unfolding mono_def by (blast intro: parent_of_grows)

lemma mono_resolved: "mono (resolved c q r)"
  unfolding mono_def resolved_def grows_def
  by (auto intro: list_ex_prefix parent_of_grows[unfolded grows_def] split: option.splits)

lemma mono_got: "mono (got c q r)"
  unfolding mono_def got_def
  by (auto intro: parent_of_grows split: option.splits)

lemma mono_has_coll: "mono (has_coll c)"
  by (simp add: mono_def grows_def)

lemma mono_has_index: "mono (has_index c ix)"
  unfolding mono_def has_index_def grows_def by (blast intro: find_prefix)

lemma mono_const: "mono (\<lambda>s. C)"
  by (simp add: mono_def)

lemma mono_conj: "mono K \<Longrightarrow> mono K' \<Longrightarrow> mono (\<lambda>s. K s \<and> K' s)"
  unfolding mono_def by blast

lemmas mono_intros = mono_conj mono_const mono_parent_of mono_resolved mono_got mono_has_coll
  mono_has_index

lemma refers_grows: "grows s s' \<Longrightarrow> refers k c q s d \<Longrightarrow> refers k c q s' d"
  unfolding refers_def by (auto intro: parent_of_grows split: option.splits val.splits)

lemma created_ok_grows: "grows s s' \<Longrightarrow> created_ok c s d \<Longrightarrow> created_ok c s' d"
  unfolding created_ok_def by (auto intro: refers_grows split: if_splits)

subsection \<open>The invariant of a run\<close>

lemma created_inv_start: "created_inv s s"
  by (simp add: created_inv_def created_def grows_refl)

lemma created_inv_quiet:
  assumes "same_docs s s'" and "grows s s'" and "created_inv s0 s"
  shows "created_inv s0 s'"
proof -
  have "grows s0 s'" using assms by (auto simp: created_inv_def intro: grows_trans)
  moreover have "list_all (created_ok c s') (created c s0 s')" for c
  proof -
    have "created c s0 s' = created c s0 s" using assms(1) by (simp add: created_def same_docs_def)
    moreover have "list_all (created_ok c s) (created c s0 s)"
      using assms(3) by (simp add: created_inv_def)
    ultimately show ?thesis using assms(2) by (auto simp: list_all_iff intro: created_ok_grows)
  qed
  ultimately show ?thesis by (simp add: created_inv_def)
qed

lemma created_inv_insert:
  assumes inv: "created_inv s0 s"
    and ins: "insert_doc c fs s = (Inr d, s')"
    and ok: "created_ok c s' d"
  shows "created_inv s0 s'"
proof -
  have g: "grows s s'"
    using growing_insert_doc[of c fs] ins by (metis growing_def snd_conv)
  then have "grows s0 s'" using inv by (auto simp: created_inv_def intro: grows_trans)
  moreover have "list_all (created_ok c' s') (created c' s0 s')" for c'
  proof -
    have old: "list_all (created_ok c' s') (created c' s0 s)"
      using inv g by (auto simp: created_inv_def list_all_iff intro: created_ok_grows)
    show ?thesis
    proof (cases "c' = c")
      case True
      have "prefix (coll_docs c s0) (coll_docs c s)"
        using inv by (simp add: created_inv_def grows_def)
      then have "length (coll_docs c s0) \<le> length (coll_docs c s)"
        by (rule prefix_length_le)
      then have "created c s0 s' = created c s0 s @ [d]"
        using insert_doc_ok(2)[OF ins, of c] by (simp add: created_def)
      with old ok True show ?thesis by simp
    next
      case False
      then have "created c' s0 s' = created c' s0 s"
        using insert_doc_ok(2)[OF ins, of c'] by (simp add: created_def)
      with old show ?thesis by simp
    qed
  qed
  ultimately show ?thesis by (simp add: created_inv_def)
qed

subsection \<open>The steps of the seed\<close>

lemma step_quiet:
  assumes "quiet m" and "mono K"
  shows "triple (\<lambda>s. created_inv s0 s \<and> K s) m (\<lambda>_ s. created_inv s0 s \<and> K s)
           (\<lambda>e s. created_inv s0 s \<and> e \<noteq> TypeError)"
proof (rule tripleI)
  fix s assume p: "created_inv s0 s \<and> K s"
  obtain r s' where ms: "m s = (r, s')" by (cases "m s")
  have q: "same_docs s s'" "grows s s'" "r \<noteq> Inl TypeError"
    using assms(1) ms unfolding quiet_def by (metis fst_conv snd_conv)+
  have "created_inv s0 s'" using created_inv_quiet[OF q(1,2)] p by simp
  moreover have "K s'" using assms(2) q(2) p by (auto simp: mono_def)
  ultimately show "case m s of (Inl e, s') \<Rightarrow> created_inv s0 s' \<and> e \<noteq> TypeError
                   | (Inr x, s') \<Rightarrow> created_inv s0 s' \<and> K s'"
    using ms q(3) by (cases r) auto
qed

lemma parent_of_new:
  assumes "insert_doc c fs s = (Inr d, s')" and "matches q d"
  shows "parent_of c q (doc_id d) s'" and "list_ex (matches q) (coll_docs c s')"
  using insert_doc_ok(2)[OF assms(1), of c] assms(2)
  by (auto simp: parent_of_def list_ex_iff)

lemma parent_of_found:
  assumes "find (matches q) (coll_docs c s) = Some d"
  shows "parent_of c q (doc_id d) s" and "list_ex (matches q) (coll_docs c s)"
  using find_result[OF assms] by (auto simp: parent_of_def list_ex_iff)

lemma step_findOneAndUpdate:
  assumes mono: "mono K"
    and key: "\<And>n. matches q \<lparr>doc_id = n, doc_fields = upsert_fields q u\<rparr>"
    and ok: "\<And>s n. K s \<Longrightarrow> created_ok c s \<lparr>doc_id = n, doc_fields = upsert_fields q u\<rparr>"
  shows "triple (\<lambda>s. created_inv s0 s \<and> K s) (findOneAndUpdate drv c q u)
           (\<lambda>r s. created_inv s0 s \<and> K s \<and> resolved c q r s)
           (\<lambda>e s. created_inv s0 s \<and> e \<noteq> TypeError)"
proof (rule tripleI)
  fix s assume p: "created_inv s0 s \<and> K s"
  show "case findOneAndUpdate drv c q u s of
          (Inl e, s') \<Rightarrow> created_inv s0 s' \<and> e \<noteq> TypeError
        | (Inr r, s') \<Rightarrow> created_inv s0 s' \<and> K s' \<and> resolved c q r s'"
  proof (cases "find (matches q) (coll_docs c s)")
    case (Some d)
    with p parent_of_found[OF Some] show ?thesis
      by (simp add: findOneAndUpdate_effect resolved_def)
  next
    case None
    obtain r s' where ins: "insert_doc c (upsert_fields q u) s = (r, s')"
      by (cases "insert_doc c (upsert_fields q u) s")
    show ?thesis
    proof (cases r)
      case (Inl e)
      with ins insert_doc_fail[of c "upsert_fields q u" s e s'] p None show ?thesis
        by (simp add: findOneAndUpdate_effect)
    next
      case (Inr d)
      with ins have i: "insert_doc c (upsert_fields q u) s = (Inr d, s')" by simp
      have d: "d = \<lparr>doc_id = next_oid (store s), doc_fields = upsert_fields q u\<rparr>"
        by (rule insert_doc_ok(1)[OF i])
      have g: "grows s s'" using growing_insert_doc[of c "upsert_fields q u"] i
        by (metis growing_def snd_conv)
      have k: "K s'" using mono g p by (auto simp: mono_def)
      have "created_ok c s' d" unfolding d by (rule ok[OF k])
      then have "created_inv s0 s'" using created_inv_insert[OF _ i] p by simp
      moreover have "matches q d" unfolding d by (rule key)
      ultimately show ?thesis using None i k parent_of_new[OF i]
        by (simp add: findOneAndUpdate_effect resolved_def)
    qed
  qed
qed

lemma step_updateOne:
  assumes mono: "mono K"
    and ok: "\<And>s n. K s \<Longrightarrow> created_ok c s \<lparr>doc_id = n, doc_fields = upsert_fields q u\<rparr>"
  shows "triple (\<lambda>s. created_inv s0 s \<and> K s) (updateOne c q u)
           (\<lambda>_ s. created_inv s0 s \<and> K s)
           (\<lambda>e s. created_inv s0 s \<and> e \<noteq> TypeError)"
proof (rule tripleI)
  fix s assume p: "created_inv s0 s \<and> K s"
  show "case updateOne c q u s of
          (Inl e, s') \<Rightarrow> created_inv s0 s' \<and> e \<noteq> TypeError
        | (Inr r, s') \<Rightarrow> created_inv s0 s' \<and> K s'"
  proof (cases "find (matches q) (coll_docs c s)")
    case (Some d)
    with p show ?thesis by (simp add: updateOne_effect)
  next
    case None
    obtain r s' where ins: "insert_doc c (upsert_fields q u) s = (r, s')"
      by (cases "insert_doc c (upsert_fields q u) s")
    show ?thesis
    proof (cases r)
      case (Inl e)
      with ins insert_doc_fail[of c "upsert_fields q u" s e s'] p None show ?thesis
        by (simp add: updateOne_effect)
    next
      case (Inr d)
      with ins have i: "insert_doc c (upsert_fields q u) s = (Inr d, s')" by simp
      have d: "d = \<lparr>doc_id = next_oid (store s), doc_fields = upsert_fields q u\<rparr>"
        by (rule insert_doc_ok(1)[OF i])
      have g: "grows s s'" using growing_insert_doc[of c "upsert_fields q u"] i
        by (metis growing_def snd_conv)
      have k: "K s'" using mono g p by (auto simp: mono_def)
      have "created_ok c s' d" unfolding d by (rule ok[OF k])
      then have "created_inv s0 s'" using created_inv_insert[OF _ i] p by simp
      then show ?thesis using None i k by (simp add: updateOne_effect)
    qed
  qed
qed

text \<open>
  The second lookup by the same key finds a document whenever the upsert before it
  succeeded, so the identifier is resolved and no TypeError is thrown.
\<close>

lemma step_id_or_lookup:
  assumes "\<And>s. K s \<Longrightarrow> resolved c q r s"
  shows "triple (\<lambda>s. created_inv s0 s \<and> K s) (id_or_lookup r c q)
           (\<lambda>n s. created_inv s0 s \<and> K s \<and> parent_of c q n s)
           (\<lambda>e s. created_inv s0 s \<and> e \<noteq> TypeError)"
proof (rule tripleI)
  fix s assume p: "created_inv s0 s \<and> K s"
  then have r: "resolved c q r s" using assms by simp
  show "case id_or_lookup r c q s of
          (Inl e, s') \<Rightarrow> created_inv s0 s' \<and> e \<noteq> TypeError
        | (Inr n, s') \<Rightarrow> created_inv s0 s' \<and> K s' \<and> parent_of c q n s'"
  proof (cases r)
    case (Some d)
    with p r show ?thesis by (simp add: id_or_lookup_def return_def resolved_def)
  next
    case None
    from r obtain d where "find (matches q) (coll_docs c s) = Some d"
      by (cases "find (matches q) (coll_docs c s)")
         (auto simp: resolved_def list_ex_iff find_None_iff)
    with p None parent_of_found(1)[OF this] show ?thesis
      by (simp add: id_or_lookup_def bindM_def findOne_effect return_def)
  qed
qed

lemma step_doc_or_lookup:
  assumes "\<And>s. K s \<Longrightarrow> resolved c q r s"
  shows "triple (\<lambda>s. created_inv s0 s \<and> K s) (doc_or_lookup r c q)
           (\<lambda>d s. created_inv s0 s \<and> K s \<and> got c q d s)
           (\<lambda>e s. created_inv s0 s \<and> e \<noteq> TypeError)"
proof (rule tripleI)
  fix s assume p: "created_inv s0 s \<and> K s"
  then have r: "resolved c q r s" using assms by simp
  show "case doc_or_lookup r c q s of
          (Inl e, s') \<Rightarrow> created_inv s0 s' \<and> e \<noteq> TypeError
        | (Inr d, s') \<Rightarrow> created_inv s0 s' \<and> K s' \<and> got c q d s'"
  proof (cases r)
    case (Some d)
    with p r show ?thesis by (simp add: doc_or_lookup_def return_def resolved_def got_def)
  next
    case None
    from r obtain d where "find (matches q) (coll_docs c s) = Some d"
      by (cases "find (matches q) (coll_docs c s)")
         (auto simp: resolved_def list_ex_iff find_None_iff)
    with p None parent_of_found(1)[OF this] show ?thesis
      by (simp add: doc_or_lookup_def findOne_effect got_def)
  qed
qed

lemma step_read_id:
  assumes "\<And>s. K s \<Longrightarrow> got c q d s"
  shows "triple (\<lambda>s. created_inv s0 s \<and> K s) (read_id d)
           (\<lambda>n s. created_inv s0 s \<and> K s \<and> parent_of c q n s)
           (\<lambda>e s. created_inv s0 s \<and> e \<noteq> TypeError)"
proof (rule tripleI)
  fix s assume p: "created_inv s0 s \<and> K s"
  then have "got c q d s" using assms by simp
  with p show "case read_id d s of
          (Inl e, s') \<Rightarrow> created_inv s0 s' \<and> e \<noteq> TypeError
        | (Inr n, s') \<Rightarrow> created_inv s0 s' \<and> K s' \<and> parent_of c q n s'"
    by (cases d) (simp_all add: read_id_def return_def got_def)
qed

subsection \<open>The payloads\<close>

lemma key_customer:
  "matches [(''email'', VStr customerEmail)]
     \<lparr>doc_id = n, doc_fields = upsert_fields [(''email'', VStr customerEmail)] (customer_payload now)\<rparr>"
  by (simp add: matches_def field_def upsert_fields_def customer_payload_def)

lemma key_courier:
  "matches [(''email'', VStr courierEmail)]
     \<lparr>doc_id = n, doc_fields = upsert_fields [(''email'', VStr courierEmail)] (courier_payload now)\<rparr>"
  by (simp add: matches_def field_def upsert_fields_def courier_payload_def)

lemma key_delivery:
  "matches [(''seedMarker'', VStr deliveryMarker)]
     \<lparr>doc_id = n,
      doc_fields = upsert_fields [(''seedMarker'', VStr deliveryMarker)] (delivery_payload cid now)\<rparr>"
  by (simp add: matches_def field_def upsert_fields_def delivery_payload_def)

lemma ok_customer:
  "created_ok ''users'' s
     \<lparr>doc_id = n, doc_fields = upsert_fields [(''email'', VStr customerEmail)] (customer_payload now)\<rparr>"
  by (simp add: created_ok_def user_field_names_def field_def upsert_fields_def
      customer_payload_def)

lemma ok_courier:
  "created_ok ''users'' s
     \<lparr>doc_id = n, doc_fields = upsert_fields [(''email'', VStr courierEmail)] (courier_payload now)\<rparr>"
  by (simp add: created_ok_def user_field_names_def field_def upsert_fields_def
      courier_payload_def)

lemma ok_delivery:
  "parent_of ''users'' [(''email'', VStr customerEmail)] cid s \<Longrightarrow>
   created_ok ''deliveries'' s
     \<lparr>doc_id = n,
      doc_fields = upsert_fields [(''seedMarker'', VStr deliveryMarker)] (delivery_payload cid now)\<rparr>"
  by (simp add: created_ok_def refers_def customer_key_def field_def upsert_fields_def
      delivery_payload_def)

lemma ok_event1:
  "parent_of ''deliveries'' [(''seedMarker'', VStr deliveryMarker)] did s \<Longrightarrow>
   created_ok ''tracking_events'' s
     \<lparr>doc_id = n, doc_fields = upsert_fields (seedMarker_of (event1 did now)) (event1 did now)\<rparr>"
  by (simp add: created_ok_def refers_def delivery_key_def field_def upsert_fields_def
      seedMarker_of_def event1_def)

lemma ok_event2:
  "parent_of ''deliveries'' [(''seedMarker'', VStr deliveryMarker)] did s \<Longrightarrow>
   created_ok ''tracking_events'' s
     \<lparr>doc_id = n, doc_fields = upsert_fields (seedMarker_of (event2 did now)) (event2 did now)\<rparr>"
  by (simp add: created_ok_def refers_def delivery_key_def field_def upsert_fields_def
      seedMarker_of_def event2_def)

lemma ok_notification:
  "parent_of ''users'' [(''email'', VStr customerEmail)] cid s \<Longrightarrow>
   created_ok ''notifications'' s
     \<lparr>doc_id = n,
      doc_fields = upsert_fields [(''seedMarker'', VStr ''seed_notification_1'')]
                     (notification_payload cid now)\<rparr>"
  by (simp add: created_ok_def refers_def customer_key_def field_def upsert_fields_def
      notification_payload_def)

subsection \<open>The seed, step by step\<close>

lemma seed_inv:
  "triple (created_inv s0)
     (seed drv now (''users'', ''deliveries'', ''tracking_events'', ''notifications''))
     (\<lambda>_. created_inv s0)
     (\<lambda>e s. created_inv s0 s \<and> e \<noteq> TypeError)"
  unfolding seed_def prod.case
  apply (rule triple_pre[where P' = "\<lambda>s. created_inv s0 s \<and> True"])
   prefer 2 apply simp
  apply (rule triple_bind, rule step_findOneAndUpdate)
     apply (intro mono_intros)
    apply (rule key_customer)
   apply (rule ok_customer)
  apply (rule triple_bind, rule step_findOneAndUpdate)
     apply (intro mono_intros)
    apply (rule key_courier)
   apply (rule ok_courier)
  apply (rule triple_bind, rule step_id_or_lookup)
   apply simp
  apply (rule triple_bind, rule step_id_or_lookup)
   apply simp
  apply (rule triple_bind, rule step_quiet, rule quiet_print)
   apply (intro mono_intros)
  apply (rule triple_bind, rule step_quiet, rule quiet_print)
   apply (intro mono_intros)
  apply (rule triple_bind, rule step_findOneAndUpdate)
     apply (intro mono_intros)
    apply (rule key_delivery)
   apply (simp add: ok_delivery)
  apply (rule triple_bind, rule step_doc_or_lookup)
   apply simp
  apply (rule triple_bind,
     rule step_read_id[where c = "''deliveries''" and q = "[(''seedMarker'', VStr deliveryMarker)]"])
   apply simp
  apply (rule triple_bind, rule step_quiet, rule quiet_print)
   apply (intro mono_intros)
  apply (rule triple_bind, rule step_updateOne)
    apply (intro mono_intros)
   apply (simp add: ok_event1)
  apply (rule triple_bind, rule step_updateOne)
    apply (intro mono_intros)
   apply (simp add: ok_event2)
  apply (rule triple_bind, rule step_quiet, rule quiet_print)
   apply (intro mono_intros)
  apply (rule triple_bind, rule step_updateOne)
    apply (intro mono_intros)
   apply (simp add: ok_notification)
  apply (rule triple_bind, rule step_quiet, rule quiet_print)
   apply (intro mono_intros)
  apply (rule triple_post, rule step_quiet, rule quiet_print)
   apply (intro mono_intros)
  apply simp
  done

section \<open>Runs on the empty store\<close>

lemmas prims = return_def throw_def bindM_def print_def empty_collection_def get_coll_def
  put_coll_def getCollectionInfos_def createCollection_def getCollection_def field_def
  matches_def upsert_fields_def index_key_def violates_def insert_doc_def createIndex_def
  findOne_def findOneAndUpdate_def updateOne_def ensureCollection_def id_or_lookup_def
  doc_or_lookup_def read_id_def seedMarker_of_def

lemmas payloads = customerEmail_def courierEmail_def customer_payload_def courier_payload_def
  deliveryMarker_def delivery_payload_def event1_def event2_def notification_payload_def

lemma main_fresh:
  "main drv now fresh =
     (Inr (), \<lparr>store = seeded now,
               console =
                 [Created_collection ''users'', Created_collection ''deliveries'',
                  Created_collection ''tracking_events'', Created_collection ''notifications'',
                  Indexes_ensured, Customer_id 0, Courier_id 1, Delivery_id 2,
                  Tracking_events_ensured, Notification_ensured, Complete]\<rparr>)"
  by (simp add: main_def provision_def seed_def fresh_def empty_db_def seeded_def prims payloads
      Let_def)

lemma main_seeded:
  "main drv now' \<lparr>store = seeded now, console = c\<rparr> =
     (Inr (), \<lparr>store = seeded now,
               console = c @
                 [Collection_exists ''users'', Collection_exists ''deliveries'',
                  Collection_exists ''tracking_events'', Collection_exists ''notifications'',
                  Indexes_ensured, Customer_id 0, Courier_id 1, Delivery_id 2,
                  Tracking_events_ensured, Notification_ensured, Complete]\<rparr>)"
  by (simp add: main_def provision_def seed_def seeded_def prims payloads Let_def)

lemma runs_seeded:
  "fst (runs drv nows \<lparr>store = seeded now, console = c\<rparr>) = Inr () \<and>
   store (snd (runs drv nows \<lparr>store = seeded now, console = c\<rparr>)) = seeded now"
proof (induction nows arbitrary: c)
  case Nil
  show ?case by (simp add: return_def)
next
  case (Cons now' nows)
  show ?case by (simp add: bindM_def main_seeded Cons.IH)
qed

lemma runs_fresh:
  "fst (runs drv (now # nows) fresh) = Inr () \<and>
   store (snd (runs drv (now # nows) fresh)) = seeded now"
  by (simp add: bindM_def main_fresh runs_seeded)

lemma seeded_docs:
  "store s = seeded now \<Longrightarrow> coll_docs ''users'' s =
     [\<lparr>doc_id = 0, doc_fields = customer_payload now\<rparr>, \<lparr>doc_id = 1, doc_fields = courier_payload now\<rparr>]"
  "store s = seeded now \<Longrightarrow> coll_docs ''deliveries'' s = [\<lparr>doc_id = 2, doc_fields = delivery_payload 0 now\<rparr>]"
  "store s = seeded now \<Longrightarrow> coll_docs ''tracking_events'' s =
     [\<lparr>doc_id = 3, doc_fields = upsert_fields [(''seedMarker'', VStr ''seed_tracking_1'')] (event1 2 now)\<rparr>,
      \<lparr>doc_id = 4, doc_fields = upsert_fields [(''seedMarker'', VStr ''seed_tracking_2'')] (event2 2 now)\<rparr>]"
  "store s = seeded now \<Longrightarrow> coll_docs ''notifications'' s = [\<lparr>doc_id = 5, doc_fields = notification_payload 0 now\<rparr>]"
  by (simp_all add: coll_docs_def get_coll_def seeded_def)

text \<open>
  Claim C1. For every N \<ge> 1, N runs of the script in succession on the empty store, each
  with its own clock value, succeed and leave the store that the first run alone leaves:
  one customer user, one courier user, one delivery, two tracking events and one
  notification, every document with the field values of the first run.
\<close>

theorem rerun_idempotent:
  "fst (runs drv (now # nows) fresh) = Inr () \<and>
   store (snd (runs drv (now # nows) fresh)) = store (snd (main drv now fresh)) \<and>
   count_docs ''users'' [(''role'', VStr ''customer'')] (snd (runs drv (now # nows) fresh)) = 1 \<and>
   count_docs ''users'' [(''role'', VStr ''courier'')] (snd (runs drv (now # nows) fresh)) = 1 \<and>
   count_docs ''users'' [] (snd (runs drv (now # nows) fresh)) = 2 \<and>
   count_docs ''deliveries'' [] (snd (runs drv (now # nows) fresh)) = 1 \<and>
   count_docs ''tracking_events'' [] (snd (runs drv (now # nows) fresh)) = 2 \<and>
   count_docs ''notifications'' [] (snd (runs drv (now # nows) fresh)) = 1"
proof -
  define s where "s = snd (runs drv (now # nows) fresh)"
  have st: "store s = seeded now" unfolding s_def using runs_fresh by blast
  have "count_docs ''users'' [(''role'', VStr ''customer'')] s = 1"
    and "count_docs ''users'' [(''role'', VStr ''courier'')] s = 1"
    and "count_docs ''users'' [] s = 2"
    by (simp_all add: count_docs_def seeded_docs[OF st] matches_def field_def payloads)
  moreover have "count_docs ''deliveries'' [] s = 1"
    and "count_docs ''tracking_events'' [] s = 2"
    and "count_docs ''notifications'' [] s = 1"
    by (simp_all add: count_docs_def seeded_docs[OF st] matches_def)
  moreover have "store (snd (main drv now fresh)) = seeded now" by (simp add: main_fresh)
  moreover have "fst (runs drv (now # nows) fresh) = Inr ()" using runs_fresh by blast
  ultimately show ?thesis using st unfolding s_def by presburger
qed

lemma fresh_docs:
  "coll_docs ''users'' (snd (main drv now fresh)) =
     [\<lparr>doc_id = 0, doc_fields = customer_payload now\<rparr>,
      \<lparr>doc_id = 1, doc_fields = courier_payload now\<rparr>]"
  "coll_docs ''deliveries'' (snd (main drv now fresh)) =
     [\<lparr>doc_id = 2, doc_fields = delivery_payload 0 now\<rparr>]"
  "coll_docs ''tracking_events'' (snd (main drv now fresh)) =
     [\<lparr>doc_id = 3,
       doc_fields = upsert_fields [(''seedMarker'', VStr ''seed_tracking_1'')] (event1 2 now)\<rparr>,
      \<lparr>doc_id = 4,
       doc_fields = upsert_fields [(''seedMarker'', VStr ''seed_tracking_2'')] (event2 2 now)\<rparr>]"
  "coll_docs ''notifications'' (snd (main drv now fresh)) =
     [\<lparr>doc_id = 5, doc_fields = notification_payload 0 now\<rparr>]"
  by (simp_all add: main_fresh seeded_docs)

text \<open>
  Claim C8. The event marked seed_tracking_2 is created with a strictly later createdAt
  than the event marked seed_tracking_1, and the tracking events of the seeded delivery,
  sorted by the compound index (deliveryId ascending, createdAt descending), come with
  seed_tracking_2 before seed_tracking_1.
\<close>

theorem tracking_events_order:
  "map (field ''createdAt'') (coll_docs ''tracking_events'' (snd (main drv now fresh))) =
     [Some (VDate (now - 120000)), Some (VDate (now - 60000))] \<and>
   now - 120000 < now - 60000 \<and>
   map (field ''seedMarker'') (coll_docs ''tracking_events'' (snd (main drv now fresh))) =
     [Some (VStr ''seed_tracking_1''), Some (VStr ''seed_tracking_2'')] \<and>
   map doc_id (coll_docs ''deliveries'' (snd (main drv now fresh))) = [2] \<and>
   map (field ''seedMarker'')
     (find_sorted ''tracking_events'' [(''deliveryId'', VId 2)]
        [(''deliveryId'', 1), (''createdAt'', - 1)] (snd (main drv now fresh))) =
     [Some (VStr ''seed_tracking_2''), Some (VStr ''seed_tracking_1'')]"
proof -
  have "map (field ''createdAt'') (coll_docs ''tracking_events'' (snd (main drv now fresh))) =
     [Some (VDate (now - 120000)), Some (VDate (now - 60000))]"
    and "map (field ''seedMarker'') (coll_docs ''tracking_events'' (snd (main drv now fresh))) =
     [Some (VStr ''seed_tracking_1''), Some (VStr ''seed_tracking_2'')]"
    by (simp_all add: fresh_docs field_def upsert_fields_def event1_def event2_def)
  moreover have "map doc_id (coll_docs ''deliveries'' (snd (main drv now fresh))) = [2]"
    by (simp add: fresh_docs)
  moreover have "map (field ''seedMarker'')
     (find_sorted ''tracking_events'' [(''deliveryId'', VId 2)]
        [(''deliveryId'', 1), (''createdAt'', - 1)] (snd (main drv now fresh))) =
     [Some (VStr ''seed_tracking_2''), Some (VStr ''seed_tracking_1'')]"
    by (simp add: find_sorted_def fresh_docs sort_docs_def matches_def field_def key_val_def
        upsert_fields_def event1_def event2_def cmp_def)
  ultimately show ?thesis by simp
qed

text \<open>
  Claim C9. In a run on the empty store every timestamp derives from the one clock value
  \<open>now\<close>: both users, the delivery and the notification have createdAt equal to it, the
  delivery's updatedAt equals its createdAt, and the tracking events are stamped exactly
  two minutes and exactly one minute earlier, both strictly before the delivery's
  createdAt.
\<close>

theorem timestamps_from_one_clock:
  "map (field ''createdAt'') (coll_docs ''users'' (snd (main drv now fresh))) =
     [Some (VDate now), Some (VDate now)] \<and>
   map (field ''createdAt'') (coll_docs ''deliveries'' (snd (main drv now fresh))) = [Some (VDate now)] \<and>
   map (field ''updatedAt'') (coll_docs ''deliveries'' (snd (main drv now fresh))) = [Some (VDate now)] \<and>
   map (field ''createdAt'') (coll_docs ''notifications'' (snd (main drv now fresh))) = [Some (VDate now)] \<and>
   map (field ''createdAt'') (coll_docs ''tracking_events'' (snd (main drv now fresh))) =
     [Some (VDate (now - 2 * 60 * 1000)), Some (VDate (now - 1 * 60 * 1000))] \<and>
   cmp_val (VDate (now - 2 * 60 * 1000)) (VDate now) = - 1 \<and>
   cmp_val (VDate (now - 1 * 60 * 1000)) (VDate now) = - 1"
proof -
  have "map (field ''createdAt'') (coll_docs ''users'' (snd (main drv now fresh))) =
     [Some (VDate now), Some (VDate now)]"
    by (simp add: fresh_docs field_def customer_payload_def courier_payload_def)
  moreover have "map (field ''createdAt'') (coll_docs ''deliveries'' (snd (main drv now fresh))) = [Some (VDate now)]"
    and "map (field ''updatedAt'') (coll_docs ''deliveries'' (snd (main drv now fresh))) = [Some (VDate now)]"
    by (simp_all add: fresh_docs field_def delivery_payload_def)
  moreover have "map (field ''createdAt'') (coll_docs ''notifications'' (snd (main drv now fresh))) = [Some (VDate now)]"
    by (simp add: fresh_docs field_def notification_payload_def)
  moreover have "map (field ''createdAt'') (coll_docs ''tracking_events'' (snd (main drv now fresh))) =
     [Some (VDate (now - 2 * 60 * 1000)), Some (VDate (now - 1 * 60 * 1000))]"
    by (simp add: fresh_docs field_def upsert_fields_def event1_def event2_def)
  moreover have "cmp_val (VDate (now - 2 * 60 * 1000)) (VDate now) = - 1"
    and "cmp_val (VDate (now - 1 * 60 * 1000)) (VDate now) = - 1"
    by (simp_all add: cmp_def)
  ultimately show ?thesis by presburger
qed

text \<open>
  Claim C10. After a run on the empty store no document of any collection holds the
  courier user's identifier, at any depth: the delivery's courierId is null and the
  notification's userId is the customer's identifier.
\<close>

theorem courier_unreferenced:
  "map doc_id (filter (matches [(''email'', VStr courierEmail)])
      (coll_docs ''users'' (snd (main drv now fresh)))) = [1] \<and>
   map doc_id (filter (matches [(''email'', VStr customerEmail)])
      (coll_docs ''users'' (snd (main drv now fresh)))) = [0] \<and>
   references 1 (snd (main drv now fresh)) = [] \<and>
   map (field ''courierId'') (coll_docs ''deliveries'' (snd (main drv now fresh))) = [Some VNull] \<and>
   map (field ''userId'') (coll_docs ''notifications'' (snd (main drv now fresh))) = [Some (VId 0)]"
proof -
  have "map doc_id (filter (matches [(''email'', VStr courierEmail)])
      (coll_docs ''users'' (snd (main drv now fresh)))) = [1]"
    and "map doc_id (filter (matches [(''email'', VStr customerEmail)])
      (coll_docs ''users'' (snd (main drv now fresh)))) = [0]"
    by (simp_all add: fresh_docs matches_def field_def payloads)
  moreover have "references 1 (snd (main drv now fresh)) = []"
    by (simp add: references_def main_fresh seeded_def upsert_fields_def payloads)
  moreover have "map (field ''courierId'') (coll_docs ''deliveries'' (snd (main drv now fresh))) = [Some VNull]"
    by (simp add: fresh_docs field_def delivery_payload_def)
  moreover have "map (field ''userId'') (coll_docs ''notifications'' (snd (main drv now fresh))) = [Some (VId 0)]"
    by (simp add: fresh_docs field_def notification_payload_def)
  ultimately show ?thesis by presburger
qed

subsection \<open>Provisioning\<close>

lemma prov_ensure:
  assumes "mono K"
  shows "triple K (ensureCollection n) (\<lambda>r s. K s \<and> (r = n \<and> has_coll n s)) (\<lambda>e s. True)"
proof (rule tripleI)
  fix s assume "K s"
  moreover have "grows s (snd (ensureCollection n s))"
    using quiet_ensureCollection[of n] by (simp add: quiet_def)
  ultimately have "K (snd (ensureCollection n s))" using assms by (auto simp: mono_def)
  moreover have "has_coll n (snd (ensureCollection n s))" by (simp add: ensureCollection_views)
  moreover have "fst (ensureCollection n s) = Inr n" by (simp add: ensureCollection_effect)
  ultimately show "case ensureCollection n s of (Inl e, s') \<Rightarrow> True
                   | (Inr r, s') \<Rightarrow> K s' \<and> (r = n \<and> has_coll n s')"
    by (cases "ensureCollection n s") auto
qed

lemma prov_index:
  assumes "mono K"
  shows "triple K (createIndex c ks u n)
           (\<lambda>_ s. K s \<and> has_index c \<lparr>ix_name = n, ix_keys = ks, ix_unique = u\<rparr> s) (\<lambda>e s. True)"
proof (rule tripleI)
  fix s assume "K s"
  moreover have "grows s (snd (createIndex c ks u n s))"
    using quiet_createIndex[of c ks u n] by (simp add: quiet_def)
  ultimately have "K (snd (createIndex c ks u n s))" using assms by (auto simp: mono_def)
  then show "case createIndex c ks u n s of (Inl e, s') \<Rightarrow> True
             | (Inr r, s') \<Rightarrow> K s' \<and> has_index c \<lparr>ix_name = n, ix_keys = ks, ix_unique = u\<rparr> s'"
    using createIndex_has[of c ks u n s]
    by (cases "createIndex c ks u n s") (auto split: sum.splits)
qed

lemma prov_print:
  assumes "mono K"
  shows "triple K (print l) (\<lambda>_ s. K s) (\<lambda>e s. True)"
proof (rule tripleI)
  fix s assume "K s"
  moreover have "grows s (snd (print l s))" using quiet_print[of l] by (simp add: quiet_def)
  ultimately have "K (snd (print l s))" using assms by (auto simp: mono_def)
  then show "case print l s of (Inl e, s') \<Rightarrow> True | (Inr r, s') \<Rightarrow> K s'"
    by (simp add: print_def)
qed

lemma provision_post:
  "triple (\<lambda>s. True) provision
     (\<lambda>h s. h = (''users'', ''deliveries'', ''tracking_events'', ''notifications'') \<and> provisioned s)
     (\<lambda>e s. True)"
  unfolding provision_def
  apply (rule triple_bind, rule prov_ensure, intro mono_intros)
  apply (rule triple_bind, rule prov_ensure, intro mono_intros)
  apply (rule triple_bind, rule prov_ensure, intro mono_intros)
  apply (rule triple_bind, rule prov_ensure, intro mono_intros)
  apply (rule triple_bind, rule prov_index, intro mono_intros)
  apply (rule triple_bind, rule prov_index, intro mono_intros)
  apply (rule triple_bind, rule prov_index, intro mono_intros)
  apply (rule triple_bind, rule prov_index, intro mono_intros)
  apply (rule triple_bind, rule prov_index, intro mono_intros)
  apply (rule triple_bind, rule prov_index, intro mono_intros)
  apply (rule triple_bind, rule prov_index, intro mono_intros)
  apply (rule triple_bind, rule prov_print, intro mono_intros)
  apply (rule triple_post, rule triple_return)
  apply (simp add: provisioned_def index_table_def)
  done

lemma provision_success:
  assumes "provision s = (Inr h, s')"
  shows "h = (''users'', ''deliveries'', ''tracking_events'', ''notifications'')"
    and "provisioned s'"
  using triple_ok[OF provision_post _ assms] by simp_all

text \<open>Provisioning a provisioned store changes nothing in it.\<close>

lemma provision_again:
  assumes "provisioned s"
  shows "provision s =
     (Inr (''users'', ''deliveries'', ''tracking_events'', ''notifications''),
      s\<lparr>console := console s @
          [Collection_exists ''users'', Collection_exists ''deliveries'',
           Collection_exists ''tracking_events'', Collection_exists ''notifications'',
           Indexes_ensured]\<rparr>)"
  using assms
  by (simp add: provisioned_def index_table_def provision_def bindM_def
      ensureCollection_effect createIndex_noop print_def return_def)

text \<open>
  What provisioning adds: to each collection, the indexes of its rows in the table whose
  names the collection did not have, in the table's order, and nothing else.
\<close>

lemma find_None_append: "(find P (xs @ ys) = None) = (find P xs = None \<and> find P ys = None)"
  by (induction xs) auto

lemma bindM_ok:
  assumes "bindM m f s = (Inr y, s'')"
  obtains x s' where "m s = (Inr x, s')" and "f x s' = (Inr y, s'')"
  using assms by (auto simp: bindM_def split: prod.splits sum.splits)

lemma createIndex_step:
  assumes "createIndex c ks u n s = (Inr x, s')"
  shows "coll_indexes c' s' =
           coll_indexes c' s @
           (if c' = c \<and> find (\<lambda>i. ix_name i = n) (coll_indexes c s) = None
            then [\<lparr>ix_name = n, ix_keys = ks, ix_unique = u\<rparr>] else [])"
  using assms
  by (auto simp: createIndex_def Let_def coll_indexes_def get_put_coll
      split: option.splits if_splits)

lemma ensureCollection_step:
  assumes "ensureCollection n s = (Inr x, s')"
  shows "x = n \<and> coll_indexes c s' = coll_indexes c s"
proof -
  have "snd (ensureCollection n s) = s'" "fst (ensureCollection n s) = Inr x"
    using assms by simp_all
  then show ?thesis using ensureCollection_views(2)[of c n s]
    by (auto simp: ensureCollection_effect)
qed

lemma provision_indexes:
  assumes "provision s = (Inr h, s')"
  shows "coll_indexes c s' =
           coll_indexes c s @
           filter (\<lambda>ix. find (\<lambda>i. ix_name i = ix_name ix) (coll_indexes c s) = None) (table_for c)"
  using assms unfolding provision_def
  apply (elim bindM_ok)
  apply (drule ensureCollection_step[where c = c])+
  apply (drule createIndex_step[where c' = c])+
  apply (cases "c = ''users''"; cases "c = ''deliveries''"; cases "c = ''tracking_events''";
      cases "c = ''notifications''")
                 apply (auto simp: print_def return_def table_for_def index_table_def
      find_None_append)
  done


subsection \<open>The whole script\<close>

lemma quiet_inv:
  assumes "quiet m"
  shows "triple (created_inv s0) m (\<lambda>_. created_inv s0) (\<lambda>e s. created_inv s0 s \<and> e \<noteq> TypeError)"
  using step_quiet[OF assms mono_const[of True], of s0] by simp

lemma main_inv:
  "triple (created_inv s0) (main drv now) (\<lambda>_. created_inv s0)
     (\<lambda>e s. created_inv s0 s \<and> e \<noteq> TypeError)"
  unfolding main_def
proof (rule triple_bind)
  show "triple (created_inv s0) provision
          (\<lambda>h s. created_inv s0 s \<and>
                  h = (''users'', ''deliveries'', ''tracking_events'', ''notifications''))
          (\<lambda>e s. created_inv s0 s \<and> e \<noteq> TypeError)"
  proof (rule tripleI)
    fix s assume p: "created_inv s0 s"
    obtain r s' where ps: "provision s = (r, s')" by (cases "provision s")
    show "case provision s of
            (Inl e, s') \<Rightarrow> created_inv s0 s' \<and> e \<noteq> TypeError
          | (Inr h, s') \<Rightarrow> created_inv s0 s' \<and>
              h = (''users'', ''deliveries'', ''tracking_events'', ''notifications'')"
    proof (cases r)
      case (Inl e)
      with ps triple_err[OF quiet_inv[OF quiet_provision] p] show ?thesis
        by simp
    next
      case (Inr h)
      with ps triple_ok[OF quiet_inv[OF quiet_provision] p] provision_success(1)
      show ?thesis by simp
    qed
  qed
next
  fix h
  show "triple (\<lambda>s. created_inv s0 s \<and>
                  h = (''users'', ''deliveries'', ''tracking_events'', ''notifications''))
          (seed drv now h) (\<lambda>_. created_inv s0)
          (\<lambda>e s. created_inv s0 s \<and> e \<noteq> TypeError)"
  proof (rule triple_fact)
    assume "h = (''users'', ''deliveries'', ''tracking_events'', ''notifications'')"
    then show "triple (created_inv s0) (seed drv now h) (\<lambda>_. created_inv s0)
                 (\<lambda>e s. created_inv s0 s \<and> e \<noteq> TypeError)"
      using seed_inv by simp
  qed
qed

lemma main_created:
  "created_inv s (snd (main drv now s))" "fst (main drv now s) \<noteq> Inl TypeError"
proof -
  obtain r s' where ms: "main drv now s = (r, s')" by (cases "main drv now s")
  have p: "created_inv s s" by (simp add: created_inv_start)
  have "created_inv s s' \<and> r \<noteq> Inl TypeError"
  proof (cases r)
    case (Inl e)
    with ms triple_err[OF main_inv p] show ?thesis by simp
  next
    case (Inr x)
    with ms triple_ok[OF main_inv p] show ?thesis by simp
  qed
  with ms show "created_inv s (snd (main drv now s))" "fst (main drv now s) \<noteq> Inl TypeError"
    by simp_all
qed


section \<open>Unique indexes\<close>




















section \<open>The order of creation\<close>

lemma next_oid_put_coll [simp]: "next_oid (put_coll n c d) = next_oid d"
  by (simp add: put_coll_def)

lemma calm_bind:
  assumes "calm m" and "\<And>x. calm (f x)"
  shows "calm (bindM m f)"
  unfolding calm_def
proof
  fix s
  obtain r s' where ms: "m s = (r, s')" by (cases "m s")
  have q: "same_docs s s'" "grows s s'" "next_oid (store s') = next_oid (store s)"
    using assms(1) ms unfolding calm_def by (metis snd_conv)+
  show "same_docs s (snd (bindM m f s)) \<and> grows s (snd (bindM m f s)) \<and>
        next_oid (store (snd (bindM m f s))) = next_oid (store s)"
  proof (cases r)
    case (Inl e)
    with ms q show ?thesis by (simp add: bindM_def)
  next
    case (Inr x)
    have "same_docs s' (snd (f x s'))" "grows s' (snd (f x s'))"
      "next_oid (store (snd (f x s'))) = next_oid (store s')"
      using assms(2)[of x] by (simp_all add: calm_def)
    with ms Inr q show ?thesis
      by (simp add: bindM_def) (meson grows_trans same_docs_trans)
  qed
qed

lemma calm_return: "calm (return x)"
  by (simp add: calm_def return_def same_docs_refl grows_refl)

lemma calm_throw: "calm (throw e)"
  by (simp add: calm_def throw_def same_docs_refl grows_refl)

lemma calm_print: "calm (print l)"
  using quiet_print[of l] by (simp add: calm_def quiet_def) (simp add: print_def)

lemma calm_ensureCollection: "calm (ensureCollection n)"
  using quiet_ensureCollection[of n]
  by (simp add: calm_def quiet_def) (simp add: ensureCollection_effect)

lemma calm_createIndex: "calm (createIndex c ks u n)"
  using quiet_createIndex[of c ks u n]
  by (simp add: calm_def quiet_def) (simp add: createIndex_def Let_def split: option.splits)

lemma calm_findOne: "calm (findOne c q)"
  by (simp add: calm_def findOne_effect same_docs_refl grows_refl)

lemma calm_id_or_lookup: "calm (id_or_lookup r c q)"
  unfolding id_or_lookup_def
  by (cases r) (auto intro!: calm_bind calm_return calm_throw calm_findOne split: option.splits)

lemma calm_doc_or_lookup: "calm (doc_or_lookup r c q)"
  unfolding doc_or_lookup_def by (cases r) (auto intro!: calm_return calm_findOne)

lemma calm_read_id: "calm (read_id r)"
  unfolding read_id_def by (cases r) (auto intro!: calm_return calm_throw)

lemma calm_provision: "calm provision"
  unfolding provision_def
  by (intro calm_bind calm_ensureCollection calm_createIndex calm_print calm_return)

subsection \<open>Subsequences of the plan\<close>

lemma subseq_Nil_iff: "subseq xs [] = (xs = [])"
  by auto

lemma subseq_snoc: "subseq xs ys \<Longrightarrow> subseq (xs @ [a]) (ys @ [a])"
  by (simp add: list_emb_append_mono)

lemma subseq_take_mono:
  assumes "subseq xs (take j L)" and "j \<le> j'"
  shows "subseq xs (take j' L)"
proof -
  have "take j' L = take j L @ take (j' - j) (drop j L)"
    using assms(2) take_add[of j "j' - j" L] by simp
  with assms(1) show ?thesis by (simp add: list_emb_prefix)
qed

lemma subseq_take_full: "subseq xs (take j L) \<Longrightarrow> subseq xs L"
  using list_emb_prefix[of "(=)" xs "take j L" "drop j L"] by simp

lemma ord_shape_next: "ord_shape k cr \<Longrightarrow> ord_shape (Suc k) cr"
  unfolding ord_shape_def
  apply (elim conjE)
  apply (intro conjI)
     apply (erule subseq_take_mono, simp)+
  done

lemma ord_shape_end: "ord_shape k cr \<Longrightarrow> ord_shape 6 cr"
  unfolding ord_shape_def
  by (auto dest!: subseq_take_full)

lemma ord_inv_end: "ord_inv k s0 s \<Longrightarrow> ord_inv 6 s0 s"
  by (auto simp: ord_inv_def intro: ord_shape_end)

subsection \<open>The steps and the order\<close>

lemma ord_inv_start: "ord_inv 0 s s"
  by (simp add: ord_inv_def grows_refl created_seq_def seq_of_def created_def ord_shape_def)

lemma ord_calm:
  assumes "calm m"
  shows "triple (ord_inv k s0) m (\<lambda>_. ord_inv k s0) (\<lambda>_. ord_inv 6 s0)"
proof (rule tripleI)
  fix s assume inv: "ord_inv k s0 s"
  obtain r s' where ms: "m s = (r, s')" by (cases "m s")
  have q: "same_docs s s'" "grows s s'" "next_oid (store s') = next_oid (store s)"
    using assms ms unfolding calm_def by (metis snd_conv)+
  have c: "created c s0 s' = created c s0 s" for c
    using q(1) by (simp add: created_def same_docs_def)
  have "ord_inv k s0 s'"
    using inv q(2,3) by (auto simp: ord_inv_def created_seq_def c intro: grows_trans)
  then show "case m s of (Inl e, s') \<Rightarrow> ord_inv 6 s0 s' | (Inr x, s') \<Rightarrow> ord_inv k s0 s'"
    using ms by (cases r) (auto intro: ord_inv_end)
qed

lemma created_insert:
  assumes "grows s0 s" and "insert_doc c fs s = (Inr d, s')"
  shows "(\<lambda>c'. created c' s0 s') = (\<lambda>c'. created c' s0 s)(c := created c s0 s @ [d])"
proof
  fix c'
  have "prefix (coll_docs c s0) (coll_docs c s)" using assms(1) by (simp add: grows_def)
  then have "length (coll_docs c s0) \<le> length (coll_docs c s)" by (rule prefix_length_le)
  then show "created c' s0 s' = ((\<lambda>c'. created c' s0 s)(c := created c s0 s @ [d])) c'"
    using insert_doc_ok(2)[OF assms(2), of c'] by (simp add: created_def)
qed

lemma ord_insert:
  assumes inv: "ord_inv k s0 s"
    and ins: "insert_doc c fs s = (Inr d, s')"
    and last: "seq_of ((\<lambda>c'. created c' s0 s)(c := created c s0 s @ [d])) =
                 seq_of (\<lambda>c'. created c' s0 s) @ [d]"
    and shape: "ord_shape (Suc k) ((\<lambda>c'. created c' s0 s)(c := created c s0 s @ [d]))"
  shows "ord_inv (Suc k) s0 s'"
proof -
  have g0: "grows s0 s" using inv by (simp add: ord_inv_def)
  have g: "grows s s'" using growing_insert_doc[of c fs] ins by (metis growing_def snd_conv)
  have cr: "(\<lambda>c'. created c' s0 s') = (\<lambda>c'. created c' s0 s)(c := created c s0 s @ [d])"
    by (rule created_insert[OF g0 ins])
  have sq: "created_seq s0 s' = created_seq s0 s @ [d]"
    using last by (simp add: created_seq_def cr)
  have d: "doc_id d = next_oid (store s)"
    using insert_doc_ok(1)[OF ins] by simp
  have n: "next_oid (store s') = Suc (next_oid (store s))"
    using ins by (auto simp: insert_doc_def Let_def split: if_splits)
  have old: "\<forall>x \<in> set (created_seq s0 s). doc_id x < next_oid (store s)"
    using inv by (simp add: ord_inv_def list_all_iff)
  have "sorted_wrt (<) (map doc_id (created_seq s0 s'))"
    using inv old by (simp add: ord_inv_def sq d sorted_wrt_append)
  moreover have "list_all (\<lambda>x. doc_id x < next_oid (store s')) (created_seq s0 s')"
    using old by (auto simp: sq d n list_all_iff less_Suc_eq)
  moreover have "grows s0 s'" using g0 g by (rule grows_trans)
  ultimately show ?thesis using shape by (simp add: ord_inv_def cr)
qed

lemma ord_findOneAndUpdate:
  assumes last: "\<And>cr d. ord_shape k cr \<Longrightarrow> seq_of (cr(c := cr c @ [d])) = seq_of cr @ [d]"
    and shape: "\<And>cr n. ord_shape k cr \<Longrightarrow>
      ord_shape (Suc k) (cr(c := cr c @ [\<lparr>doc_id = n, doc_fields = upsert_fields q u\<rparr>]))"
  shows "triple (ord_inv k s0) (findOneAndUpdate drv c q u) (\<lambda>_. ord_inv (Suc k) s0)
           (\<lambda>_. ord_inv 6 s0)"
proof (rule tripleI)
  fix s assume inv: "ord_inv k s0 s"
  then have sh: "ord_shape k (\<lambda>c. created c s0 s)" by (simp add: ord_inv_def)
  have keep: "ord_inv (Suc k) s0 s"
    using inv by (auto simp: ord_inv_def intro: ord_shape_next)
  show "case findOneAndUpdate drv c q u s of
          (Inl e, s') \<Rightarrow> ord_inv 6 s0 s' | (Inr r, s') \<Rightarrow> ord_inv (Suc k) s0 s'"
  proof (cases "find (matches q) (coll_docs c s)")
    case (Some d)
    with keep show ?thesis by (simp add: findOneAndUpdate_effect)
  next
    case None
    obtain r s' where ins: "insert_doc c (upsert_fields q u) s = (r, s')"
      by (cases "insert_doc c (upsert_fields q u) s")
    show ?thesis
    proof (cases r)
      case (Inl e)
      with ins insert_doc_fail[of c "upsert_fields q u" s e s'] None inv show ?thesis
        by (simp add: findOneAndUpdate_effect ord_inv_end)
    next
      case (Inr d)
      with ins have i: "insert_doc c (upsert_fields q u) s = (Inr d, s')" by simp
      have d: "d = \<lparr>doc_id = next_oid (store s), doc_fields = upsert_fields q u\<rparr>"
        by (rule insert_doc_ok(1)[OF i])
      have "ord_inv (Suc k) s0 s'"
        using ord_insert[OF inv i last[OF sh]] shape[OF sh, of "next_oid (store s)"] d by simp
      with None i show ?thesis by (simp add: findOneAndUpdate_effect)
    qed
  qed
qed

lemma ord_updateOne:
  assumes last: "\<And>cr d. ord_shape k cr \<Longrightarrow> seq_of (cr(c := cr c @ [d])) = seq_of cr @ [d]"
    and shape: "\<And>cr n. ord_shape k cr \<Longrightarrow>
      ord_shape (Suc k) (cr(c := cr c @ [\<lparr>doc_id = n, doc_fields = upsert_fields q u\<rparr>]))"
  shows "triple (ord_inv k s0) (updateOne c q u) (\<lambda>_. ord_inv (Suc k) s0) (\<lambda>_. ord_inv 6 s0)"
proof (rule tripleI)
  fix s assume inv: "ord_inv k s0 s"
  then have sh: "ord_shape k (\<lambda>c. created c s0 s)" by (simp add: ord_inv_def)
  have keep: "ord_inv (Suc k) s0 s"
    using inv by (auto simp: ord_inv_def intro: ord_shape_next)
  show "case updateOne c q u s of
          (Inl e, s') \<Rightarrow> ord_inv 6 s0 s' | (Inr r, s') \<Rightarrow> ord_inv (Suc k) s0 s'"
  proof (cases "find (matches q) (coll_docs c s)")
    case (Some d)
    with keep show ?thesis by (simp add: updateOne_effect)
  next
    case None
    obtain r s' where ins: "insert_doc c (upsert_fields q u) s = (r, s')"
      by (cases "insert_doc c (upsert_fields q u) s")
    show ?thesis
    proof (cases r)
      case (Inl e)
      with ins insert_doc_fail[of c "upsert_fields q u" s e s'] None inv show ?thesis
        by (simp add: updateOne_effect ord_inv_end)
    next
      case (Inr d)
      with ins have i: "insert_doc c (upsert_fields q u) s = (Inr d, s')" by simp
      have d: "d = \<lparr>doc_id = next_oid (store s), doc_fields = upsert_fields q u\<rparr>"
        by (rule insert_doc_ok(1)[OF i])
      have "ord_inv (Suc k) s0 s'"
        using ord_insert[OF inv i last[OF sh]] shape[OF sh, of "next_oid (store s)"] d by simp
      with None i show ?thesis by (simp add: updateOne_effect)
    qed
  qed
qed

lemma seed_ord:
  "triple (ord_inv 0 s0)
     (seed drv now (''users'', ''deliveries'', ''tracking_events'', ''notifications''))
     (\<lambda>_. ord_inv 6 s0) (\<lambda>_. ord_inv 6 s0)"
  unfolding seed_def prod.case
  apply (rule triple_bind, rule ord_findOneAndUpdate)
    apply (simp add: ord_shape_def seq_of_def subseq_Nil_iff)
   apply (simp add: ord_shape_def subseq_Nil_iff field_def upsert_fields_def customer_payload_def)
  apply (rule triple_bind, rule ord_findOneAndUpdate)
    apply (simp add: ord_shape_def seq_of_def subseq_Nil_iff)
   apply (simp add: ord_shape_def subseq_Nil_iff field_def upsert_fields_def courier_payload_def
      subseq_snoc[of _ "[Some (VStr customerEmail)]", simplified])
  apply (rule triple_bind, rule ord_calm, rule calm_id_or_lookup)
  apply (rule triple_bind, rule ord_calm, rule calm_id_or_lookup)
  apply (rule triple_bind, rule ord_calm, rule calm_print)
  apply (rule triple_bind, rule ord_calm, rule calm_print)
  apply (rule triple_bind, rule ord_findOneAndUpdate)
    apply (simp add: ord_shape_def seq_of_def subseq_Nil_iff)
   apply (simp add: ord_shape_def subseq_Nil_iff field_def upsert_fields_def delivery_payload_def)
  apply (rule triple_bind, rule ord_calm, rule calm_doc_or_lookup)
  apply (rule triple_bind, rule ord_calm, rule calm_read_id)
  apply (rule triple_bind, rule ord_calm, rule calm_print)
  apply (rule triple_bind, rule ord_updateOne)
    apply (simp add: ord_shape_def seq_of_def subseq_Nil_iff)
   apply (simp add: ord_shape_def subseq_Nil_iff field_def upsert_fields_def seedMarker_of_def
      event1_def)
  apply (rule triple_bind, rule ord_updateOne)
    apply (simp add: ord_shape_def seq_of_def subseq_Nil_iff)
   apply (simp add: ord_shape_def subseq_Nil_iff field_def upsert_fields_def seedMarker_of_def
      event2_def subseq_snoc[of _ "[Some (VStr ''seed_tracking_1'')]", simplified])
  apply (rule triple_bind, rule ord_calm, rule calm_print)
  apply (rule triple_bind, rule ord_updateOne)
    apply (simp add: ord_shape_def seq_of_def)
   apply (simp add: ord_shape_def subseq_Nil_iff field_def upsert_fields_def
      notification_payload_def)
  apply (rule triple_bind, rule ord_calm, rule calm_print)
  apply (rule triple_post, rule ord_calm, rule calm_print)
  apply (simp add: eval_nat_numeral)
  done

lemma main_ord:
  "triple (ord_inv 0 s0) (main drv now) (\<lambda>_. ord_inv 6 s0) (\<lambda>_. ord_inv 6 s0)"
  unfolding main_def
proof (rule triple_bind)
  show "triple (ord_inv 0 s0) provision
          (\<lambda>h s. ord_inv 0 s0 s \<and>
                  h = (''users'', ''deliveries'', ''tracking_events'', ''notifications''))
          (\<lambda>_. ord_inv 6 s0)"
  proof (rule tripleI)
    fix s assume p: "ord_inv 0 s0 s"
    obtain r s' where ps: "provision s = (r, s')" by (cases "provision s")
    show "case provision s of
            (Inl e, s') \<Rightarrow> ord_inv 6 s0 s'
          | (Inr h, s') \<Rightarrow> ord_inv 0 s0 s' \<and>
              h = (''users'', ''deliveries'', ''tracking_events'', ''notifications'')"
    proof (cases r)
      case (Inl e)
      with ps triple_err[OF ord_calm[OF calm_provision] p] show ?thesis by simp
    next
      case (Inr h)
      with ps triple_ok[OF ord_calm[OF calm_provision] p] provision_success(1)
      show ?thesis by simp
    qed
  qed
next
  fix h
  show "triple (\<lambda>s. ord_inv 0 s0 s \<and>
                  h = (''users'', ''deliveries'', ''tracking_events'', ''notifications''))
          (seed drv now h) (\<lambda>_. ord_inv 6 s0) (\<lambda>_. ord_inv 6 s0)"
  proof (rule triple_fact)
    assume "h = (''users'', ''deliveries'', ''tracking_events'', ''notifications'')"
    then show "triple (ord_inv 0 s0) (seed drv now h) (\<lambda>_. ord_inv 6 s0) (\<lambda>_. ord_inv 6 s0)"
      using seed_ord by simp
  qed
qed

lemma main_order: "ord_inv 6 s (snd (main drv now s))"
proof -
  obtain r s' where ms: "main drv now s = (r, s')" by (cases "main drv now s")
  have "ord_inv 6 s s'"
  proof (cases r)
    case (Inl e)
    with ms triple_err[OF main_ord ord_inv_start] show ?thesis by simp
  next
    case (Inr x)
    with ms triple_ok[OF main_ord ord_inv_start] show ?thesis by simp
  qed
  with ms show ?thesis by simp
qed

section \<open>Properties of a run on any store\<close>

lemma provision_fresh:
  "provision fresh =
     (Inr (''users'', ''deliveries'', ''tracking_events'', ''notifications''),
      \<lparr>store = \<lparr>colls = map (\<lambda>nc. (fst nc, (snd nc)\<lparr>docs := []\<rparr>)) (colls (seeded 0)), next_oid = 0\<rparr>,
       console = [Created_collection ''users'', Created_collection ''deliveries'',
                  Created_collection ''tracking_events'', Created_collection ''notifications'',
                  Indexes_ensured]\<rparr>)"
  by (simp add: provision_def fresh_def empty_db_def seeded_def prims Let_def)


text \<open>
  Claim C2. A document that matches the key of a find-or-create step before a run is,
  after the run, still the document found by that key, with its identifier and every field
  as before, whatever values the fields have; more generally every collection keeps all of
  its documents unchanged and in place, and a run only appends. This holds for every store
  and every outcome of the run.
\<close>

theorem existing_documents_kept:
  assumes "find (matches key) (coll_docs c s) = Some d"
  shows "find (matches key) (coll_docs c (snd (main drv now s))) = Some d \<and>
         prefix (coll_docs c s) (coll_docs c (snd (main drv now s)))"
proof -
  have "grows s (snd (main drv now s))" using growing_main[of drv now] by (simp add: growing_def)
  then have p: "prefix (coll_docs c s) (coll_docs c (snd (main drv now s)))"
    by (simp add: grows_def)
  with find_prefix[OF assms p] show ?thesis by simp
qed

theorem existing_documents_kept_witness:
  "find (matches delivery_key) (coll_docs ''deliveries'' in_progress) = Some delivered_doc \<and>
   find (matches delivery_key) (coll_docs ''deliveries'' (snd (main drv_doc 5000 in_progress))) =
     Some delivered_doc \<and>
   field ''status'' delivered_doc = Some (VStr ''delivered'')"
proof -
  have h: "find (matches delivery_key) (coll_docs ''deliveries'' in_progress) = Some delivered_doc"
    by (simp add: coll_docs_def get_coll_def in_progress_def delivered_doc_def delivery_key_def
        matches_def field_def)
  have "field ''status'' delivered_doc = Some (VStr ''delivered'')"
    by (simp add: delivered_doc_def field_def)
  with h existing_documents_kept[OF h, of drv_doc 5000] show ?thesis by simp
qed

text \<open>
  Claim C3. For every store and every shell, also one whose upsert returns null and so
  sends the script to its second lookup by the same key: each delivery the run inserts
  holds in customerId the identifier of a user document matching the customer's email,
  each tracking event it inserts holds in deliveryId the identifier of a delivery
  matching the delivery marker, each notification it inserts holds in userId the identifier
  of such a user; these parents are in the store, so no child is inserted with a null or
  missing parent reference, also when the run aborts. Where the upsert returned null and
  the second lookup finds no document, reading its identifier throws a TypeError, and
  whatever follows is not run: the store stays as it is. In a run the second lookup always
  finds the document, so no run ends in that TypeError.
\<close>

theorem children_reference_parents:
  "list_all (refers ''customerId'' ''users'' customer_key (snd (main drv now s)))
     (created ''deliveries'' s (snd (main drv now s))) \<and>
   list_all (refers ''deliveryId'' ''deliveries'' delivery_key (snd (main drv now s)))
     (created ''tracking_events'' s (snd (main drv now s))) \<and>
   list_all (refers ''userId'' ''users'' customer_key (snd (main drv now s)))
     (created ''notifications'' s (snd (main drv now s))) \<and>
   fst (main drv now s) \<noteq> Inl TypeError \<and>
   (find (matches key) (coll_docs c s) = None \<longrightarrow>
      bindM (id_or_lookup None c key) f s = (Inl TypeError, s) \<and>
      bindM (doc_or_lookup None c key) (\<lambda>d. bindM (read_id d) g) s = (Inl TypeError, s))"
proof -
  have inv: "\<forall>c. list_all (created_ok c (snd (main drv now s))) (created c s (snd (main drv now s)))"
    using main_created(1)[of s drv now] by (simp add: created_inv_def)
  have "list_all (refers ''customerId'' ''users'' customer_key (snd (main drv now s)))
     (created ''deliveries'' s (snd (main drv now s)))"
    using inv[rule_format, of "''deliveries''"] by (simp add: created_ok_def list_all_iff)
  moreover have "list_all (refers ''deliveryId'' ''deliveries'' delivery_key (snd (main drv now s)))
     (created ''tracking_events'' s (snd (main drv now s)))"
    using inv[rule_format, of "''tracking_events''"] by (simp add: created_ok_def list_all_iff)
  moreover have "list_all (refers ''userId'' ''users'' customer_key (snd (main drv now s)))
     (created ''notifications'' s (snd (main drv now s)))"
    using inv[rule_format, of "''notifications''"] by (simp add: created_ok_def list_all_iff)
  moreover have "bindM (id_or_lookup None c key) f s = (Inl TypeError, s)"
    and "bindM (doc_or_lookup None c key) (\<lambda>d. bindM (read_id d) g) s = (Inl TypeError, s)"
    if "find (matches key) (coll_docs c s) = None"
    using that
    by (simp_all add: id_or_lookup_def doc_or_lookup_def read_id_def bindM_def findOne_effect
        throw_def)
  ultimately show ?thesis using main_created(2)[of drv now s] by simp
qed

text \<open>
  The same at a shell that never returns the upserted document, on the empty store: the
  three kinds of children are created, each with its parent's identifier; and a lookup of
  the customer on the empty store throws before the delivery that follows it is inserted.
\<close>

theorem children_reference_parents_witness:
  "map doc_id (created ''deliveries'' fresh (snd (main drv_null 0 fresh))) = [2] \<and>
   map doc_id (created ''tracking_events'' fresh (snd (main drv_null 0 fresh))) = [3, 4] \<and>
   map doc_id (created ''notifications'' fresh (snd (main drv_null 0 fresh))) = [5] \<and>
   list_all (refers ''customerId'' ''users'' customer_key (snd (main drv_null 0 fresh)))
     (created ''deliveries'' fresh (snd (main drv_null 0 fresh))) \<and>
   list_all (refers ''deliveryId'' ''deliveries'' delivery_key (snd (main drv_null 0 fresh)))
     (created ''tracking_events'' fresh (snd (main drv_null 0 fresh))) \<and>
   list_all (refers ''userId'' ''users'' customer_key (snd (main drv_null 0 fresh)))
     (created ''notifications'' fresh (snd (main drv_null 0 fresh))) \<and>
   fst (main drv_null 0 fresh) = Inr () \<and>
   find (matches customer_key) (coll_docs ''users'' fresh) = None \<and>
   bindM (id_or_lookup None ''users'' customer_key)
     (\<lambda>customerId. insertOne ''deliveries'' (delivery_payload customerId 0)) fresh =
     (Inl TypeError, fresh)"
proof -
  have e: "coll_docs c fresh = []" for c
    by (simp add: coll_docs_def get_coll_def fresh_def empty_db_def empty_collection_def)
  have "map doc_id (created ''deliveries'' fresh (snd (main drv_null 0 fresh))) = [2]"
    and "map doc_id (created ''tracking_events'' fresh (snd (main drv_null 0 fresh))) = [3, 4]"
    and "map doc_id (created ''notifications'' fresh (snd (main drv_null 0 fresh))) = [5]"
    by (simp_all add: created_def e fresh_docs)
  moreover have "fst (main drv_null 0 fresh) = Inr ()" by (simp add: main_fresh)
  moreover have "find (matches customer_key) (coll_docs ''users'' fresh) = None"
    by (simp add: e)
  ultimately show ?thesis
    using children_reference_parents[of drv_null 0 fresh customer_key "''users''"
        "\<lambda>customerId. insertOne ''deliveries'' (delivery_payload customerId 0)"
        "\<lambda>deliveryId. return ()"]
    by simp
qed

text \<open>
  Claim C4, as stated: every user document the script creates has the field names of the
  data model, among them passwordHash. It fails on the first user document of a run on the
  empty store, which has no field passwordHash: the script writes password_hash.
\<close>

theorem user_fields_counterexample:
  "field ''passwordHash'' (hd (coll_docs ''users'' (snd (main drv_doc 0 fresh)))) = None \<and>
   set (map fst (doc_fields (hd (coll_docs ''users'' (snd (main drv_doc 0 fresh)))))) \<noteq>
     set spec_user_field_names"
proof -
  have "''password_hash'' \<notin> set spec_user_field_names"
    by (simp add: spec_user_field_names_def)
  moreover have "''password_hash'' \<in>
      set (map fst (doc_fields (hd (coll_docs ''users'' (snd (main drv_doc 0 fresh))))))"
    by (simp add: fresh_docs customer_payload_def)
  moreover have "field ''passwordHash'' (hd (coll_docs ''users'' (snd (main drv_doc 0 fresh)))) = None"
    by (simp add: fresh_docs field_def customer_payload_def)
  ultimately show ?thesis by metis
qed

text \<open>
  Claim C4, amended: every user document a run creates, on any store, carries after its
  identifier exactly the fields email, password_hash, role, name, phone and createdAt, in
  this order, and its role is customer or courier.
\<close>

theorem user_fields:
  "list_all (\<lambda>d. map fst (doc_fields d) = user_field_names \<and>
                 (field ''role'' d = Some (VStr ''customer'') \<or>
                  field ''role'' d = Some (VStr ''courier'')))
     (created ''users'' s (snd (main drv now s)))"
proof -
  have "list_all (created_ok ''users'' (snd (main drv now s)))
          (created ''users'' s (snd (main drv now s)))"
    using main_created(1)[of s drv now] by (simp add: created_inv_def)
  then show ?thesis by (simp add: created_ok_def list_all_iff)
qed

theorem user_fields_witness:
  "map doc_id (created ''users'' fresh (snd (main drv_doc 0 fresh))) = [0, 1] \<and>
   list_all (\<lambda>d. map fst (doc_fields d) = user_field_names \<and>
                 (field ''role'' d = Some (VStr ''customer'') \<or>
                  field ''role'' d = Some (VStr ''courier'')))
     (created ''users'' fresh (snd (main drv_doc 0 fresh)))"
proof -
  have "coll_docs ''users'' fresh = []"
    by (simp add: coll_docs_def get_coll_def fresh_def empty_db_def empty_collection_def)
  then have "map doc_id (created ''users'' fresh (snd (main drv_doc 0 fresh))) = [0, 1]"
    by (simp add: created_def fresh_docs)
  then show ?thesis using user_fields[of fresh drv_doc 0] by simp
qed

text \<open>
  Claim C5. After provisioning the empty store each of the four collections has exactly
  the indexes of the table of section 4.2, in the table's order. On any store on which
  provisioning succeeds: every index of the table is then found under its name with the
  table's keys, directions and uniqueness; each collection has the indexes it had, followed
  by the table's indexes for it whose names it did not have, and no other; and provisioning
  again succeeds and leaves the store as it is, so that no index is added, renamed or
  changed.
\<close>

theorem indexes_provisioned:
  assumes "fst (provision s) = Inr h"
  shows "provisioned (snd (provision s)) \<and>
         coll_indexes c (snd (provision s)) =
           coll_indexes c s @
           filter (\<lambda>ix. find (\<lambda>i. ix_name i = ix_name ix) (coll_indexes c s) = None)
             (table_for c) \<and>
         fst (provision (snd (provision s))) = Inr h \<and>
         store (snd (provision (snd (provision s)))) = store (snd (provision s)) \<and>
         map (\<lambda>c. coll_indexes c (snd (provision fresh)))
           [''users'', ''deliveries'', ''tracking_events'', ''notifications''] =
         map table_for [''users'', ''deliveries'', ''tracking_events'', ''notifications'']"
proof -
  obtain s' where ps: "provision s = (Inr h, s')" using assms by (cases "provision s") simp
  have h: "h = (''users'', ''deliveries'', ''tracking_events'', ''notifications'')"
    and p: "provisioned s'"
    using provision_success[OF ps] by simp_all
  have "map (\<lambda>c. coll_indexes c (snd (provision fresh)))
           [''users'', ''deliveries'', ''tracking_events'', ''notifications''] =
         map table_for [''users'', ''deliveries'', ''tracking_events'', ''notifications'']"
    by (simp add: provision_fresh coll_indexes_def get_coll_def seeded_def table_for_def
        index_table_def)
  with ps h p provision_again[OF p] provision_indexes[OF ps, of c] show ?thesis by simp
qed

theorem indexes_provisioned_witness:
  "fst (provision fresh) = Inr (''users'', ''deliveries'', ''tracking_events'', ''notifications'') \<and>
   provisioned (snd (provision fresh)) \<and>
   coll_indexes ''deliveries'' (snd (provision fresh)) = table_for ''deliveries'' \<and>
   store (snd (provision (snd (provision fresh)))) = store (snd (provision fresh))"
proof -
  have h: "fst (provision fresh) =
             Inr (''users'', ''deliveries'', ''tracking_events'', ''notifications'')"
    by (simp add: provision_fresh)
  have "coll_indexes ''deliveries'' fresh = []"
    by (simp add: coll_indexes_def get_coll_def fresh_def empty_db_def empty_collection_def)
  with indexes_provisioned[OF h, of "''deliveries''"] h show ?thesis by simp
qed

lemma in_use_docs:
  "coll_docs ''users'' in_use = [\<lparr>doc_id = 10, doc_fields = customer_payload 1000\<rparr>]"
  "coll_docs ''deliveries'' in_use = [\<lparr>doc_id = 11, doc_fields = delivery_payload 10 1000\<rparr>]"
  "coll_docs ''tracking_events'' in_use = []"
  "coll_docs ''notifications'' in_use = []"
  by (simp_all add: coll_docs_def get_coll_def in_use_def empty_collection_def)

text \<open>
  Claim C6. On the empty store the script creates its documents in dependency order: the
  customer user, the courier user, the delivery, the two tracking events, the
  notification (the ObjectIds 0 to 5 are given in the order of creation, and the console
  shows the identifiers as they were resolved). The delivery and the notification carry
  the customer's identifier, both tracking events carry the delivery's identifier, and the
  delivery's courierId is null.

  On any store, for every shell, and whether the run completes or aborts: every delivery
  the run creates has courierId null and, in customerId, the identifier of a user of the
  store with the customer's email; every tracking event it creates has in deliveryId the
  identifier of a delivery of the store with the delivery marker; every notification it
  creates has in userId the identifier of a user with the customer's email. The documents
  the run creates are, by collection and in the order of their insertion, among the
  customer and then the courier, the delivery, seed_tracking_1 and then seed_tracking_2,
  the notification; and their identifiers, which the generator hands out in the order of
  insertion, increase along users, deliveries, tracking events, notifications: the steps
  run in that order.
\<close>

theorem seed_order_and_threading:
  "fst (main drv now fresh) = Inr () \<and>
   map doc_id (coll_docs ''users'' (snd (main drv now fresh))) = [0, 1] \<and>
   map (field ''email'') (coll_docs ''users'' (snd (main drv now fresh))) =
     [Some (VStr customerEmail), Some (VStr courierEmail)] \<and>
   map doc_id (coll_docs ''deliveries'' (snd (main drv now fresh))) = [2] \<and>
   map (field ''customerId'') (coll_docs ''deliveries'' (snd (main drv now fresh))) = [Some (VId 0)] \<and>
   map (field ''courierId'') (coll_docs ''deliveries'' (snd (main drv now fresh))) = [Some VNull] \<and>
   map doc_id (coll_docs ''tracking_events'' (snd (main drv now fresh))) = [3, 4] \<and>
   map (field ''seedMarker'') (coll_docs ''tracking_events'' (snd (main drv now fresh))) =
     [Some (VStr ''seed_tracking_1''), Some (VStr ''seed_tracking_2'')] \<and>
   map (field ''deliveryId'') (coll_docs ''tracking_events'' (snd (main drv now fresh))) =
     [Some (VId 2), Some (VId 2)] \<and>
   map doc_id (coll_docs ''notifications'' (snd (main drv now fresh))) = [5] \<and>
   map (field ''userId'') (coll_docs ''notifications'' (snd (main drv now fresh))) = [Some (VId 0)] \<and>
   console (snd (main drv now fresh)) =
     [Created_collection ''users'', Created_collection ''deliveries'',
      Created_collection ''tracking_events'', Created_collection ''notifications'',
      Indexes_ensured, Customer_id 0, Courier_id 1, Delivery_id 2,
      Tracking_events_ensured, Notification_ensured, Complete] \<and>
   list_all (\<lambda>d. field ''courierId'' d = Some VNull \<and>
                 refers ''customerId'' ''users'' customer_key (snd (main drv now s)) d)
     (created ''deliveries'' s (snd (main drv now s))) \<and>
   list_all (refers ''deliveryId'' ''deliveries'' delivery_key (snd (main drv now s)))
     (created ''tracking_events'' s (snd (main drv now s))) \<and>
   list_all (refers ''userId'' ''users'' customer_key (snd (main drv now s)))
     (created ''notifications'' s (snd (main drv now s))) \<and>
   sorted_wrt (<) (map doc_id (created_seq s (snd (main drv now s)))) \<and>
   subseq (map (field ''email'') (created ''users'' s (snd (main drv now s))))
     [Some (VStr customerEmail), Some (VStr courierEmail)] \<and>
   subseq (map (field ''seedMarker'') (created ''deliveries'' s (snd (main drv now s))))
     [Some (VStr deliveryMarker)] \<and>
   subseq (map (field ''seedMarker'') (created ''tracking_events'' s (snd (main drv now s))))
     [Some (VStr ''seed_tracking_1''), Some (VStr ''seed_tracking_2'')] \<and>
   subseq (map (field ''seedMarker'') (created ''notifications'' s (snd (main drv now s))))
     [Some (VStr ''seed_notification_1'')]"
proof -
  have "fst (main drv now fresh) = Inr ()"
    and "console (snd (main drv now fresh)) =
     [Created_collection ''users'', Created_collection ''deliveries'',
      Created_collection ''tracking_events'', Created_collection ''notifications'',
      Indexes_ensured, Customer_id 0, Courier_id 1, Delivery_id 2,
      Tracking_events_ensured, Notification_ensured, Complete]"
    by (simp_all add: main_fresh)
  moreover have "map doc_id (coll_docs ''users'' (snd (main drv now fresh))) = [0, 1]"
    and "map (field ''email'') (coll_docs ''users'' (snd (main drv now fresh))) =
     [Some (VStr customerEmail), Some (VStr courierEmail)]"
    by (simp_all add: fresh_docs field_def customer_payload_def courier_payload_def)
  moreover have "map doc_id (coll_docs ''deliveries'' (snd (main drv now fresh))) = [2]"
    and "map (field ''customerId'') (coll_docs ''deliveries'' (snd (main drv now fresh))) = [Some (VId 0)]"
    and "map (field ''courierId'') (coll_docs ''deliveries'' (snd (main drv now fresh))) = [Some VNull]"
    by (simp_all add: fresh_docs field_def delivery_payload_def)
  moreover have "map doc_id (coll_docs ''tracking_events'' (snd (main drv now fresh))) = [3, 4]"
    and "map (field ''seedMarker'') (coll_docs ''tracking_events'' (snd (main drv now fresh))) =
     [Some (VStr ''seed_tracking_1''), Some (VStr ''seed_tracking_2'')]"
    and "map (field ''deliveryId'') (coll_docs ''tracking_events'' (snd (main drv now fresh))) =
     [Some (VId 2), Some (VId 2)]"
    by (simp_all add: fresh_docs field_def upsert_fields_def event1_def event2_def)
  moreover have "map doc_id (coll_docs ''notifications'' (snd (main drv now fresh))) = [5]"
    and "map (field ''userId'') (coll_docs ''notifications'' (snd (main drv now fresh))) = [Some (VId 0)]"
    by (simp_all add: fresh_docs field_def notification_payload_def)
  moreover have "list_all (\<lambda>d. field ''courierId'' d = Some VNull \<and>
                 refers ''customerId'' ''users'' customer_key (snd (main drv now s)) d)
     (created ''deliveries'' s (snd (main drv now s)))"
  proof -
    have "list_all (created_ok ''deliveries'' (snd (main drv now s)))
            (created ''deliveries'' s (snd (main drv now s)))"
      using main_created(1)[of s drv now] by (simp add: created_inv_def)
    then show ?thesis by (simp add: created_ok_def list_all_iff)
  qed
  moreover have "list_all (refers ''deliveryId'' ''deliveries'' delivery_key (snd (main drv now s)))
     (created ''tracking_events'' s (snd (main drv now s)))"
  proof -
    have "list_all (created_ok ''tracking_events'' (snd (main drv now s)))
            (created ''tracking_events'' s (snd (main drv now s)))"
      using main_created(1)[of s drv now] by (simp add: created_inv_def)
    then show ?thesis by (simp add: created_ok_def list_all_iff)
  qed
  moreover have "list_all (refers ''userId'' ''users'' customer_key (snd (main drv now s)))
     (created ''notifications'' s (snd (main drv now s)))"
  proof -
    have "list_all (created_ok ''notifications'' (snd (main drv now s)))
            (created ''notifications'' s (snd (main drv now s)))"
      using main_created(1)[of s drv now] by (simp add: created_inv_def)
    then show ?thesis by (simp add: created_ok_def list_all_iff)
  qed
  moreover have "sorted_wrt (<) (map doc_id (created_seq s (snd (main drv now s))))"
    and "subseq (map (field ''email'') (created ''users'' s (snd (main drv now s))))
     [Some (VStr customerEmail), Some (VStr courierEmail)]"
    and "subseq (map (field ''seedMarker'') (created ''deliveries'' s (snd (main drv now s))))
     [Some (VStr deliveryMarker)]"
    and "subseq (map (field ''seedMarker'') (created ''tracking_events'' s (snd (main drv now s))))
     [Some (VStr ''seed_tracking_1''), Some (VStr ''seed_tracking_2'')]"
    and "subseq (map (field ''seedMarker'') (created ''notifications'' s (snd (main drv now s))))
     [Some (VStr ''seed_notification_1'')]"
    using main_order[of s drv now] by (simp_all add: ord_inv_def ord_shape_def)
  ultimately show ?thesis by presburger
qed

text \<open>
  The same on a store in use, where the customer has the identifier 10 and the delivery the
  identifier 11, at a shell that never returns the document: the run creates the courier,
  the two tracking events and the notification, in this order, the events with the
  delivery's identifier and the notification with the customer's.
\<close>

theorem seed_order_and_threading_witness:
  "map doc_id (created_seq in_use (snd (main drv_null 5000 in_use))) = [12, 13, 14, 15] \<and>
   map (field ''email'') (created ''users'' in_use (snd (main drv_null 5000 in_use))) =
     [Some (VStr courierEmail)] \<and>
   created ''deliveries'' in_use (snd (main drv_null 5000 in_use)) = [] \<and>
   map (field ''deliveryId'') (created ''tracking_events'' in_use (snd (main drv_null 5000 in_use))) =
     [Some (VId 11), Some (VId 11)] \<and>
   map (field ''userId'') (created ''notifications'' in_use (snd (main drv_null 5000 in_use))) =
     [Some (VId 10)] \<and>
   list_all (refers ''deliveryId'' ''deliveries'' delivery_key (snd (main drv_null 5000 in_use)))
     (created ''tracking_events'' in_use (snd (main drv_null 5000 in_use))) \<and>
   list_all (refers ''userId'' ''users'' customer_key (snd (main drv_null 5000 in_use)))
     (created ''notifications'' in_use (snd (main drv_null 5000 in_use))) \<and>
   sorted_wrt (<) (map doc_id (created_seq in_use (snd (main drv_null 5000 in_use))))"
proof -
  have after:
    "coll_docs ''users'' (snd (main drv_null 5000 in_use)) =
       [\<lparr>doc_id = 10, doc_fields = customer_payload 1000\<rparr>,
        \<lparr>doc_id = 12, doc_fields = courier_payload 5000\<rparr>]"
    "coll_docs ''deliveries'' (snd (main drv_null 5000 in_use)) =
       [\<lparr>doc_id = 11, doc_fields = delivery_payload 10 1000\<rparr>]"
    "coll_docs ''tracking_events'' (snd (main drv_null 5000 in_use)) =
       [\<lparr>doc_id = 13,
         doc_fields = upsert_fields [(''seedMarker'', VStr ''seed_tracking_1'')] (event1 11 5000)\<rparr>,
        \<lparr>doc_id = 14,
         doc_fields = upsert_fields [(''seedMarker'', VStr ''seed_tracking_2'')] (event2 11 5000)\<rparr>]"
    "coll_docs ''notifications'' (snd (main drv_null 5000 in_use)) =
       [\<lparr>doc_id = 15, doc_fields = notification_payload 10 5000\<rparr>]"
    by (simp_all add: main_def provision_def seed_def in_use_def drv_null_def coll_docs_def prims
        payloads Let_def)
  have "map doc_id (created_seq in_use (snd (main drv_null 5000 in_use))) = [12, 13, 14, 15]"
    by (simp add: created_seq_def seq_of_def created_def in_use_docs after)
  moreover have "map (field ''email'') (created ''users'' in_use (snd (main drv_null 5000 in_use))) =
     [Some (VStr courierEmail)]"
    by (simp add: created_def in_use_docs after field_def courier_payload_def)
  moreover have "created ''deliveries'' in_use (snd (main drv_null 5000 in_use)) = []"
    by (simp add: created_def in_use_docs after)
  moreover have "map (field ''deliveryId'')
      (created ''tracking_events'' in_use (snd (main drv_null 5000 in_use))) =
     [Some (VId 11), Some (VId 11)]"
    by (simp add: created_def in_use_docs after field_def upsert_fields_def event1_def
        event2_def)
  moreover have "map (field ''userId'')
      (created ''notifications'' in_use (snd (main drv_null 5000 in_use))) = [Some (VId 10)]"
    by (simp add: created_def in_use_docs after field_def notification_payload_def)
  ultimately show ?thesis
    using seed_order_and_threading[of drv_null 5000 in_use] by presburger
qed






end
